theory Spec2Isabelle
  imports Complex_Main "HOL-Library.Char_ord" "HOL-Library.List_Lexorder"
begin

section \<open>Strings\<close>

text \<open>
  A Python \<open>str\<close> is modelled by the \<open>string\<close> of its UTF-8 encoding. Searching, splitting
  and comparing strings are the same on the encoding as on the characters. White space is
  the white space of Unicode, as \<open>str.isspace\<close>, \<open>str.strip\<close> and the class \<open>\s\<close> of regular
  expressions have it. Case mapping is the one of the ASCII letters.
\<close>

fun starts_with :: "string \<Rightarrow> string \<Rightarrow> bool" where
  \<comment> \<open>\<open>s.startswith(p)\<close>\<close>
  "starts_with s [] = True"
| "starts_with [] (p # ps) = False"
| "starts_with (c # cs) (p # ps) = (c = p \<and> starts_with cs ps)"

fun contains :: "string \<Rightarrow> string \<Rightarrow> bool" where
  \<comment> \<open>\<open>sub in s\<close>\<close>
  "contains sub [] = (sub = [])"
| "contains sub (c # cs) = (starts_with (c # cs) sub \<or> contains sub cs)"

definition lower_char :: "char \<Rightarrow> char" where
  "lower_char c =
     (case map_of (zip ''ABCDEFGHIJKLMNOPQRSTUVWXYZ'' ''abcdefghijklmnopqrstuvwxyz'') c of
        None \<Rightarrow> c | Some d \<Rightarrow> d)"

definition lower :: "string \<Rightarrow> string" where
  \<comment> \<open>\<open>s.lower()\<close>\<close>
  "lower s = map lower_char s"

definition unicode_spaces :: "string list" where
  \<comment> \<open>the characters for which \<open>c.isspace()\<close> holds, each in UTF-8: U+0009 to U+000D,
      U+001C to U+0020, U+0085, U+00A0, U+1680, U+2000 to U+200A, U+2028, U+2029, U+202F,
      U+205F and U+3000\<close>
  "unicode_spaces =
     [[CHR 0x09], [CHR 0x0A], [CHR 0x0B], [CHR 0x0C], [CHR 0x0D],
      [CHR 0x1C], [CHR 0x1D], [CHR 0x1E], [CHR 0x1F], [CHR 0x20],
      [CHR 0xC2, CHR 0x85], [CHR 0xC2, CHR 0xA0], [CHR 0xE1, CHR 0x9A, CHR 0x80],
      [CHR 0xE2, CHR 0x80, CHR 0x80], [CHR 0xE2, CHR 0x80, CHR 0x81],
      [CHR 0xE2, CHR 0x80, CHR 0x82], [CHR 0xE2, CHR 0x80, CHR 0x83],
      [CHR 0xE2, CHR 0x80, CHR 0x84], [CHR 0xE2, CHR 0x80, CHR 0x85],
      [CHR 0xE2, CHR 0x80, CHR 0x86], [CHR 0xE2, CHR 0x80, CHR 0x87],
      [CHR 0xE2, CHR 0x80, CHR 0x88], [CHR 0xE2, CHR 0x80, CHR 0x89],
      [CHR 0xE2, CHR 0x80, CHR 0x8A], [CHR 0xE2, CHR 0x80, CHR 0xA8],
      [CHR 0xE2, CHR 0x80, CHR 0xA9], [CHR 0xE2, CHR 0x80, CHR 0xAF],
      [CHR 0xE2, CHR 0x81, CHR 0x9F], [CHR 0xE3, CHR 0x80, CHR 0x80]]"

definition starts_with_space :: "string \<Rightarrow> bool" where
  \<comment> \<open>the first character of the string is white space\<close>
  "starts_with_space s = list_ex (starts_with s) unicode_spaces"

function strip_leading :: "string list \<Rightarrow> string \<Rightarrow> string" where
  \<comment> \<open>the string without the characters of the given list that it begins with\<close>
  "strip_leading ws s =
     (case find (\<lambda>w. w \<noteq> [] \<and> starts_with s w) ws of
        None \<Rightarrow> s
      | Some w \<Rightarrow> strip_leading ws (drop (length w) s))"
  by pat_completeness auto
termination
proof (relation "measure (\<lambda>(ws, s). length s)")
  show "wf (measure (\<lambda>(ws, s). length s))" by simp
next
  fix ws :: "string list" and s w :: string
  assume "find (\<lambda>w. w \<noteq> [] \<and> starts_with s w) ws = Some w"
  then have w: "w \<noteq> []" "starts_with s w"
    by (auto simp add: find_Some_iff)
  then have "s \<noteq> []"
    by (cases s; cases w) simp_all
  then show "((ws, drop (length w) s), (ws, s)) \<in> measure (\<lambda>(ws, s). length s)"
    using w(1) by simp
qed

declare strip_leading.simps [simp del]

definition lstrip :: "string \<Rightarrow> string" where
  \<comment> \<open>\<open>s.lstrip()\<close>\<close>
  "lstrip s = strip_leading unicode_spaces s"

definition rstrip :: "string \<Rightarrow> string" where
  \<comment> \<open>\<open>s.rstrip()\<close>: the white space at the end is the reversed white space at the start of
      the reversed string\<close>
  "rstrip s = rev (strip_leading (map rev unicode_spaces) (rev s))"

definition strip :: "string \<Rightarrow> string" where
  \<comment> \<open>\<open>s.strip()\<close>\<close>
  "strip s = rstrip (lstrip s)"

definition split_first :: "char \<Rightarrow> string \<Rightarrow> string \<times> string" where
  \<comment> \<open>\<open>s.split(c, 1)\<close> for a string that contains \<open>c\<close>; the whole string and \<open>''\<close> otherwise
      (\<open>s.partition(c)\<close> without its middle component)\<close>
  "split_first c s = (takeWhile (\<lambda>x. x \<noteq> c) s, drop 1 (dropWhile (\<lambda>x. x \<noteq> c) s))"

fun split_on :: "char \<Rightarrow> string \<Rightarrow> string list" where
  \<comment> \<open>\<open>s.split(c)\<close>: one more piece than there are occurrences of \<open>c\<close>\<close>
  "split_on c [] = [[]]"
| "split_on c (x # xs) =
     (if x = c then [] # split_on c xs
      else (case split_on c xs of [] \<Rightarrow> [[x]] | p # ps \<Rightarrow> (x # p) # ps))"

fun join :: "string \<Rightarrow> string list \<Rightarrow> string" where
  \<comment> \<open>\<open>sep.join(parts)\<close>\<close>
  "join sep [] = []"
| "join sep [p] = p"
| "join sep (p # q # ps) = p @ sep @ join sep (q # ps)"

section \<open>The standard library: \<open>urllib.parse\<close>\<close>

text \<open>
  The source imports \<open>urlparse\<close>, \<open>urljoin\<close> and \<open>parse_qs\<close> from \<open>urllib.parse\<close>. They are
  modelled after CPython 3.11. Two checks of \<open>urlsplit\<close> are parameters of the model: the
  validation of a bracketed host (done by \<open>ipaddress\<close>) and the check of a non-ASCII network
  location under NFKC normalisation (done by \<open>unicodedata\<close>). Each says whether the check
  passes; where it does not, \<open>urlsplit\<close> raises \<open>ValueError\<close>.
\<close>

datatype error = ValueError | RequestException | TimeoutException | OtherException

record pylib =
  check_bracketed_host :: "string \<Rightarrow> bool"
  checknetloc :: "string \<Rightarrow> bool"

record parse_result =
  scheme :: string
  netloc :: string
  path :: string
  params :: string
  query :: string
  fragment :: string

definition scheme_chars :: string where
  "scheme_chars =
     ''abcdefghijklmnopqrstuvwxyzABCDEFGHIJKLMNOPQRSTUVWXYZ0123456789+-.''"

definition ascii_letters :: string where
  "ascii_letters = ''abcdefghijklmnopqrstuvwxyzABCDEFGHIJKLMNOPQRSTUVWXYZ''"

definition uses_relative :: "string list" where
  "uses_relative = ['''', ''ftp'', ''http'', ''gopher'', ''nntp'', ''imap'',
     ''wais'', ''file'', ''https'', ''shttp'', ''mms'',
     ''prospero'', ''rtsp'', ''rtsps'', ''rtspu'', ''sftp'',
     ''svn'', ''svn+ssh'', ''ws'', ''wss'']"

definition uses_netloc :: "string list" where
  "uses_netloc = ['''', ''ftp'', ''http'', ''gopher'', ''nntp'', ''telnet'',
     ''imap'', ''wais'', ''file'', ''mms'', ''https'', ''shttp'',
     ''snews'', ''prospero'', ''rtsp'', ''rtsps'', ''rtspu'', ''rsync'',
     ''svn'', ''svn+ssh'', ''sftp'', ''nfs'', ''git'', ''git+ssh'',
     ''ws'', ''wss'']"

definition uses_params :: "string list" where
  "uses_params = ['''', ''ftp'', ''hdl'', ''prospero'', ''http'', ''imap'',
     ''https'', ''shttp'', ''rtsp'', ''rtsps'', ''rtspu'', ''sip'',
     ''sips'', ''mms'', ''sftp'', ''tel'']"

definition is_c0_or_space :: "char \<Rightarrow> bool" where
  \<comment> \<open>the characters 0x00..0x20\<close>
  "is_c0_or_space c = ((of_char c :: nat) \<le> 32)"

definition is_unsafe :: "char \<Rightarrow> bool" where
  "is_unsafe c = (c \<in> set [CHR 0x09, CHR 0x0D, CHR 0x0A])"

definition split_scheme :: "string \<Rightarrow> string \<Rightarrow> string \<times> string" where
  \<comment> \<open>the scheme before the first colon, if its first character is an ASCII letter and all
      its characters are scheme characters; the default scheme otherwise\<close>
  "split_scheme dflt url =
     (let pre = takeWhile (\<lambda>c. c \<noteq> CHR '':'') url in
      if CHR '':'' \<in> set url \<and> pre \<noteq> [] \<and> hd pre \<in> set ascii_letters
         \<and> list_all (\<lambda>c. c \<in> set scheme_chars) pre
      then (lower pre, drop (length pre + 1) url)
      else (dflt, url))"

definition is_delim :: "char \<Rightarrow> bool" where
  "is_delim c = (c \<in> set ''/?#'')"

definition splitnetloc :: "string \<Rightarrow> string \<times> string" where
  \<comment> \<open>\<open>_splitnetloc(url, 2)\<close>\<close>
  "splitnetloc url =
     (takeWhile (\<lambda>c. \<not> is_delim c) (drop 2 url), dropWhile (\<lambda>c. \<not> is_delim c) (drop 2 url))"

definition bracketed_host :: "string \<Rightarrow> string" where
  \<comment> \<open>\<open>netloc.partition('[')[2].partition(']')[0]\<close>\<close>
  "bracketed_host nl = fst (split_first CHR '']'' (snd (split_first CHR ''['' nl)))"

definition urlsplit :: "pylib \<Rightarrow> string \<Rightarrow> string \<Rightarrow> error + parse_result" where
  \<comment> \<open>\<open>urlsplit(url, scheme)\<close>; \<open>params\<close> is left empty\<close>
  "urlsplit L url0 scheme0 =
     (let url1 = filter (\<lambda>c. \<not> is_unsafe c) (dropWhile is_c0_or_space url0);
          dflt = filter (\<lambda>c. \<not> is_unsafe c)
                   (rev (dropWhile is_c0_or_space (rev (dropWhile is_c0_or_space scheme0))));
          (sch, url2) = split_scheme dflt url1;
          (nl, url3) = (if take 2 url2 = ''//'' then splitnetloc url2 else ('''', url2))
      in if take 2 url2 = ''//'' \<and>
            ((CHR ''['' \<in> set nl \<and> CHR '']'' \<notin> set nl) \<or> (CHR '']'' \<in> set nl \<and> CHR ''['' \<notin> set nl))
         then Inl ValueError
         else if take 2 url2 = ''//'' \<and> CHR ''['' \<in> set nl \<and> CHR '']'' \<in> set nl
                 \<and> \<not> check_bracketed_host L (bracketed_host nl)
         then Inl ValueError
         else
           let (url4, frag) = (if CHR ''#'' \<in> set url3 then split_first CHR ''#'' url3 else (url3, ''''));
               (url5, qry) = (if CHR ''?'' \<in> set url4 then split_first CHR ''?'' url4 else (url4, ''''))
           in if nl \<noteq> [] \<and> \<not> list_all (\<lambda>c. (of_char c :: nat) < 128) nl \<and> \<not> checknetloc L nl
              then Inl ValueError
              else Inr \<lparr>scheme = sch, netloc = nl, path = url5, params = '''',
                        query = qry, fragment = frag\<rparr>)"

definition splitparams :: "string \<Rightarrow> string \<times> string" where
  \<comment> \<open>\<open>_splitparams(url)\<close>: the parameters follow the first semicolon of the last path segment\<close>
  "splitparams url =
     (let last_seg = rev (takeWhile (\<lambda>c. c \<noteq> CHR ''/'') (rev url));
          front = take (length url - length last_seg) url
      in if CHR '';'' \<in> set last_seg
         then (front @ fst (split_first CHR '';'' last_seg), snd (split_first CHR '';'' last_seg))
         else (url, ''''))"

definition urlparse_scheme :: "pylib \<Rightarrow> string \<Rightarrow> string \<Rightarrow> error + parse_result" where
  \<comment> \<open>\<open>urlparse(url, scheme)\<close>\<close>
  "urlparse_scheme L url scheme0 =
     (case urlsplit L url scheme0 of
        Inl e \<Rightarrow> Inl e
      | Inr r \<Rightarrow>
          if scheme r \<in> set uses_params \<and> CHR '';'' \<in> set (path r)
          then Inr (r\<lparr>path := fst (splitparams (path r)), params := snd (splitparams (path r))\<rparr>)
          else Inr r)"

definition urlparse :: "pylib \<Rightarrow> string \<Rightarrow> error + parse_result" where
  \<comment> \<open>\<open>urlparse(url)\<close>\<close>
  "urlparse L url = urlparse_scheme L url ''''"

definition hex_val :: "char \<Rightarrow> nat option" where
  "hex_val c = map_of (zip ''0123456789abcdefABCDEF''
                 [0, 1, 2, 3, 4, 5, 6, 7, 8, 9, 10, 11, 12, 13, 14, 15, 10, 11, 12, 13, 14, 15]) c"

fun unquote :: "string \<Rightarrow> string" where
  \<comment> \<open>\<open>unquote(s)\<close>: a percent sign followed by two hexadecimal digits is replaced by the
      byte they denote. The decoded bytes stand for their UTF-8 reading.\<close>
  "unquote (p # h # l # cs) =
     (if p = CHR ''%'' then
        (case (hex_val h, hex_val l) of
           (Some a, Some b) \<Rightarrow> char_of (16 * a + b) # unquote cs
         | _ \<Rightarrow> p # unquote (h # l # cs))
      else p # unquote (h # l # cs))"
| "unquote cs = cs"

definition plus_to_space :: "string \<Rightarrow> string" where
  \<comment> \<open>\<open>s.replace('+', ' ')\<close>\<close>
  "plus_to_space s = map (\<lambda>c. if c = CHR ''+'' then CHR '' '' else c) s"

definition parse_qsl :: "string \<Rightarrow> (string \<times> string) list" where
  \<comment> \<open>\<open>parse_qsl(qs)\<close> with its defaults: fields are separated by \<open>&\<close>, and a field with an
      empty value is dropped\<close>
  "parse_qsl qs =
     (if qs = [] then []
      else concat (map (\<lambda>name_value.
             if name_value \<noteq> [] \<and> snd (split_first CHR ''='' name_value) \<noteq> []
             then [(unquote (plus_to_space (fst (split_first CHR ''='' name_value))),
                    unquote (plus_to_space (snd (split_first CHR ''='' name_value))))]
             else [])
           (split_on CHR ''&'' qs)))"

definition parse_qs :: "string \<Rightarrow> (string \<rightharpoonup> string list)" where
  \<comment> \<open>\<open>parse_qs(qs)\<close>: the values of each name, in order\<close>
  "parse_qs qs =
     fold (\<lambda>(name, val) parsed_result.
             case parsed_result name of
               Some vs \<Rightarrow> parsed_result(name \<mapsto> vs @ [val])
             | None \<Rightarrow> parsed_result(name \<mapsto> [val]))
          (parse_qsl qs) Map.empty"

section \<open>Campaign filter\<close>

definition campaign_step :: "pylib \<Rightarrow> string \<Rightarrow> string set \<Rightarrow> string set" where
  \<comment> \<open>the body of the loop of \<open>_filter_campaign_urls\<close>; an exception of \<open>urlparse\<close> is caught
      and the URL is passed over\<close>
  "campaign_step L url campaign_urls =
     (case urlparse L url of
        Inl e \<Rightarrow> campaign_urls
      | Inr parsed \<Rightarrow>
          if netloc parsed = ''campaign2.naver.com''
             \<and> contains ''/npay/v2/click-point/'' (path parsed)
             \<and> ''eventId'' \<in> dom (parse_qs (query parsed))
          then insert url campaign_urls
          else if netloc parsed = ''ofw.adison.co''
                  \<and> contains ''/u/naverpay/ads/'' (path parsed)
          then insert url campaign_urls
          else if contains ''naver'' (netloc parsed)
                  \<and> list_ex (\<lambda>keyword. contains keyword (lower (path parsed)))
                       [''point'', ''campaign'', ''event'']
          then insert url campaign_urls
          else campaign_urls)"

definition filter_campaign_urls :: "pylib \<Rightarrow> string list \<Rightarrow> string set" where
  \<comment> \<open>\<open>_filter_campaign_urls\<close>; the argument lists the candidate set in the order the loop
      visits it\<close>
  "filter_campaign_urls L url_candidates = fold (campaign_step L) url_candidates {}"

definition is_campaign :: "pylib \<Rightarrow> string \<Rightarrow> bool" where
  \<comment> \<open>whether the loop of \<open>_filter_campaign_urls\<close> adds the URL\<close>
  "is_campaign L url = (url \<in> campaign_step L url {})"

section \<open>The standard library: \<open>urljoin\<close>\<close>

definition urlunsplit :: "parse_result \<Rightarrow> string" where
  \<comment> \<open>\<open>urlunsplit\<close> of scheme, netloc, path, query and fragment\<close>
  "urlunsplit r =
     (let url1 = (if netloc r \<noteq> [] \<or> (scheme r \<noteq> [] \<and> scheme r \<in> set uses_netloc)
                   \<or> take 2 (path r) = ''//''
                  then ''//'' @ netloc r
                       @ (if path r \<noteq> [] \<and> take 1 (path r) \<noteq> ''/'' then ''/'' @ path r else path r)
                  else path r);
          url2 = (if scheme r \<noteq> [] then scheme r @ '':'' @ url1 else url1);
          url3 = (if query r \<noteq> [] then url2 @ ''?'' @ query r else url2)
      in if fragment r \<noteq> [] then url3 @ ''#'' @ fragment r else url3)"

definition urlunparse :: "parse_result \<Rightarrow> string" where
  "urlunparse r =
     urlunsplit (if params r \<noteq> [] then r\<lparr>path := path r @ '';'' @ params r\<rparr> else r)"

definition resolve_step :: "string \<Rightarrow> string list \<Rightarrow> string list" where
  \<comment> \<open>the body of the loop over the segments in \<open>urljoin\<close>: \<open>..\<close> drops the last resolved
      segment, if there is one, and \<open>.\<close> is passed over\<close>
  "resolve_step seg resolved_path =
     (if seg = ''..'' then butlast resolved_path
      else if seg = ''.'' then resolved_path
      else resolved_path @ [seg])"

definition filter_inner :: "string list \<Rightarrow> string list" where
  \<comment> \<open>\<open>segments[1:-1] = filter(None, segments[1:-1])\<close>\<close>
  "filter_inner segments =
     take 1 segments @ filter (\<lambda>s. s \<noteq> []) (butlast (drop 1 segments))
       @ (if 2 \<le> length segments then [last segments] else [])"

definition urljoin :: "pylib \<Rightarrow> string \<Rightarrow> string \<Rightarrow> error + string" where
  \<comment> \<open>\<open>urljoin(base, url)\<close>\<close>
  "urljoin L base url =
     (if base = [] then Inr url
      else if url = [] then Inr base
      else case urlparse_scheme L base '''' of
        Inl e \<Rightarrow> Inl e
      | Inr b \<Rightarrow>
         (case urlparse_scheme L url (scheme b) of
            Inl e \<Rightarrow> Inl e
          | Inr u \<Rightarrow>
             if scheme u \<noteq> scheme b \<or> scheme u \<notin> set uses_relative then Inr url
             else if scheme u \<in> set uses_netloc \<and> netloc u \<noteq> [] then Inr (urlunparse u)
             else
               let nl = (if scheme u \<in> set uses_netloc then netloc b else netloc u) in
               if path u = [] \<and> params u = []
               then Inr (urlunparse (u\<lparr>netloc := nl, path := path b, params := params b,
                              query := (if query u = [] then query b else query u)\<rparr>))
               else
                 let base_parts0 = split_on CHR ''/'' (path b);
                     base_parts = (if base_parts0 \<noteq> [] \<and> last base_parts0 \<noteq> []
                                   then butlast base_parts0 else base_parts0);
                     segments = (if take 1 (path u) = ''/'' then split_on CHR ''/'' (path u)
                                 else filter_inner (base_parts @ split_on CHR ''/'' (path u)));
                     resolved0 = fold resolve_step segments [];
                     resolved_path = (if segments \<noteq> [] \<and> last segments \<in> {''.'', ''..''}
                                      then resolved0 @ [[]] else resolved0);
                     joined = join ''/'' resolved_path
                 in Inr (urlunparse (u\<lparr>netloc := nl,
                                        path := (if joined = [] then ''/'' else joined)\<rparr>))))"

section \<open>Parsed documents\<close>

text \<open>
  Parsing HTML is done by BeautifulSoup. A parsed document is modelled by what the source
  reads from it: the anchors of the document with the three attributes the source looks at,
  the visible text as \<open>get_text(" ", strip=True)\<close> returns it, and the elements found for
  a tag and a class. An element of a listing page is modelled by the \<open>href\<close> of its first
  anchor that has one, the \<open>href\<close> of the next such anchor after that one in the document,
  and its text as \<open>get_text(strip=True)\<close> returns it.
\<close>

record a_tag =
  href :: "string option"
  data_href :: "string option"
  onclick :: "string option"

record element =
  find_a :: "string option"
  find_next_a :: "string option"
  get_text :: string

record soup =
  find_all_a :: "a_tag list"
  text_content :: string
  find_all :: "string \<Rightarrow> string \<Rightarrow> element list"

definition http_prefix :: "string \<Rightarrow> (string \<times> string) option" where
  \<comment> \<open>the match of \<open>https?://\<close> at the start of the string, and what follows it\<close>
  "http_prefix s =
     (if starts_with s ''https://'' then Some (''https://'', drop 8 s)
      else if starts_with s ''http://'' then Some (''http://'', drop 7 s)
      else None)"

definition is_quote :: "char \<Rightarrow> bool" where
  "is_quote c = (c = CHR 0x27 \<or> c = CHR 0x22)"

fun text_url_span :: "string \<Rightarrow> string \<times> string" where
  \<comment> \<open>the longest match of \<open>[^\s'"<>()]*\<close> at the start of the string, and what follows it\<close>
  "text_url_span [] = ([], [])"
| "text_url_span (c # cs) =
     (if starts_with_space (c # cs) \<or> is_quote c \<or> c \<in> set ''<>()'' then ([], c # cs)
      else (case text_url_span cs of (u, r) \<Rightarrow> (c # u, r)))"

function findall_text_urls :: "string \<Rightarrow> string list" where
  \<comment> \<open>\<open>re.findall(r'https?://[^\s\'"<>()]+', s)\<close>\<close>
  "findall_text_urls [] = []"
| "findall_text_urls (c # cs) =
     (case http_prefix (c # cs) of
        None \<Rightarrow> findall_text_urls cs
      | Some (pre, rest) \<Rightarrow>
          if fst (text_url_span rest) \<noteq> []
          then (pre @ fst (text_url_span rest)) # findall_text_urls (snd (text_url_span rest))
          else findall_text_urls cs)"
  by pat_completeness auto
termination
proof (relation "measure length")
  show "wf (measure length)" by simp
next
  fix c :: char and cs show "(cs, c # cs) \<in> measure length" by simp
next
  fix c :: char and cs x2 pre rest
  assume h: "http_prefix (c # cs) = Some x2" "(pre, rest) = x2"
  have span: "length (snd (text_url_span s)) \<le> length s" for s
    by (induction s) (auto split: prod.splits)
  have "length rest < length (c # cs)"
    using h by (auto simp add: http_prefix_def split: if_splits)
  with span [of rest] show "(snd (text_url_span rest), c # cs) \<in> measure length"
    by simp
next
  fix c :: char and cs show "(cs, c # cs) \<in> measure length" by simp
qed

function findall_onclick_urls :: "string \<Rightarrow> string list" where
  \<comment> \<open>\<open>re.findall(r"['\"](https?://[^'\"]+)['\"]", s)\<close>: the group between the quotes. The
      text of a match runs up to the next quote, so a match needs that quote to exist;
      the search goes on after the closing quote.\<close>
  "findall_onclick_urls [] = []"
| "findall_onclick_urls (c # cs) =
     (if is_quote c then
        (case http_prefix cs of
           None \<Rightarrow> findall_onclick_urls cs
         | Some (pre, rest) \<Rightarrow>
             if takeWhile (\<lambda>x. \<not> is_quote x) rest \<noteq> [] \<and> dropWhile (\<lambda>x. \<not> is_quote x) rest \<noteq> []
             then (pre @ takeWhile (\<lambda>x. \<not> is_quote x) rest)
                    # findall_onclick_urls (drop 1 (dropWhile (\<lambda>x. \<not> is_quote x) rest))
             else findall_onclick_urls cs)
      else findall_onclick_urls cs)"
  by pat_completeness auto
termination
proof (relation "measure length")
  show "wf (measure length)" by simp
next
  fix c :: char and cs show "(cs, c # cs) \<in> measure length" by simp
next
  fix c :: char and cs x2 pre rest
  assume h: "http_prefix cs = Some x2" "(pre, rest) = x2"
  then have "length rest \<le> length cs"
    by (auto simp add: http_prefix_def split: if_splits)
  moreover have "length (dropWhile (\<lambda>x. \<not> is_quote x) rest) \<le> length rest"
    by (rule length_dropWhile_le)
  ultimately show "(drop 1 (dropWhile (\<lambda>x. \<not> is_quote x) rest), c # cs) \<in> measure length"
    by simp
next
  fix c :: char and cs show "(cs, c # cs) \<in> measure length" by simp
next
  fix c :: char and cs show "(cs, c # cs) \<in> measure length" by simp
qed

definition hostname :: "parse_result \<Rightarrow> string option" where
  \<comment> \<open>the \<open>hostname\<close> attribute of a parse result: the network location without user
      information and port, in lower case up to a zone identifier\<close>
  "hostname r =
     (let hostinfo = rev (takeWhile (\<lambda>c. c \<noteq> CHR ''@'') (rev (netloc r)));
          hn = (if CHR ''['' \<in> set hostinfo
                then fst (split_first CHR '']'' (snd (split_first CHR ''['' hostinfo)))
                else fst (split_first CHR '':'' hostinfo))
      in if hn = [] then None
         else Some (lower (takeWhile (\<lambda>c. c \<noteq> CHR ''%'') hn) @ dropWhile (\<lambda>c. c \<noteq> CHR ''%'') hn))"

section \<open>The world outside the program\<close>

text \<open>
  The answers of the collaborators are parameters of the model: what a GET request returns
  or raises, what the HTML parser makes of a text, whether a Firefox session starts and
  whether a login succeeds for an account, the URL at which the browser of an account is
  after it was sent to a link (or the exception of the navigation or of reading that
  URL), whether a claim control is found and clicked on a page, whether the lock of the
  single instance is
  held by another process, and whether the files of the data directory can be read and
  written where the source handles the failure. The other file operations succeed.
  Log output is not modelled, nor are the sleeps between requests and between visits.
\<close>

record http_response =
  status_code :: nat
  response_text :: string

record env =
  requests_get :: "string \<Rightarrow> error + http_response"
  beautiful_soup :: "string \<Rightarrow> error + soup"
  firefox_starts :: "string \<Rightarrow> bool"
  login_succeeds :: "string \<Rightarrow> bool"
  driver_get :: "string \<Rightarrow> string \<Rightarrow> error + string"
  claim_clicked :: "string \<Rightarrow> string \<Rightarrow> bool"
  lock_busy :: bool
  load_fails :: bool
  save_fails :: bool
  create_fails :: bool
  strftime :: "real \<Rightarrow> string"

record site_config =
  tag :: string
  class_name :: string
  domain :: string

record config =
  DELAY_HOURS :: int
  MIN_DWELL_TIME :: int
  SCRAPING_SITES :: "(string \<times> site_config) list"
  naver_login_info :: "(string \<times> string) list"

text \<open>
  The state is the visited set of the scraper object and the two files of the data
  directory: the content of \<open>visited_urls.txt\<close>, and the modification time and the content of
  \<open>break-point.html\<close>; \<open>None\<close> is a file that does not exist. The trace records, in order,
  the requests, the browser sessions and the file operations of the run.
\<close>

datatype event =
    Requests_get string
  | Firefox_start string
  | Driver_get string string
  | Click_point string string
  | Driver_quit string
  | Unlink_break_point
  | Write_visited_urls
  | Write_break_point

record state =
  visited_urls :: "string set"
  visited_urls_file :: "string option"
  break_point_file :: "(real \<times> string) option"
  trace :: "event list"

datatype exit = SystemExit int

definition log_event :: "event \<Rightarrow> state \<Rightarrow> state" where
  "log_event e st = st\<lparr>trace := trace st @ [e]\<rparr>"

definition raise_for_status :: "http_response \<Rightarrow> error + http_response" where
  \<comment> \<open>\<open>response.raise_for_status()\<close>: a status from 400 to 599 raises \<open>HTTPError\<close>, which is
      a \<open>RequestException\<close>\<close>
  "raise_for_status response =
     (if 400 \<le> status_code response \<and> status_code response < 600 then Inl RequestException
      else Inr response)"

section \<open>Backoff gate and persisted state\<close>

definition check_break_point :: "config \<Rightarrow> real \<Rightarrow> state \<Rightarrow> exit + state" where
  \<comment> \<open>\<open>_check_break_point\<close>; the second argument is the value of \<open>time.time()\<close>\<close>
  "check_break_point cfg now st =
     (case break_point_file st of
        None \<Rightarrow> Inr st
      | Some (st_mtime, content) \<Rightarrow>
          let file_age = now - st_mtime;
              delay_seconds = DELAY_HOURS cfg * 3600
          in if file_age \<ge> real_of_int delay_seconds
             then Inr (log_event Unlink_break_point (st\<lparr>break_point_file := None\<rparr>))
             else Inl (SystemExit 1))"

definition is_newline :: "char \<Rightarrow> bool" where
  "is_newline c = (c = CHR 0x0A \<or> c = CHR 0x0D)"

fun file_lines :: "string \<Rightarrow> string list" where
  \<comment> \<open>the lines of a text file without their ends; a line ends at a line feed, at a
      carriage return, or at both\<close>
  "file_lines [] = [[]]"
| "file_lines (x # xs) =
     (if is_newline x then [] # file_lines xs
      else (case file_lines xs of [] \<Rightarrow> [[x]] | p # ps \<Rightarrow> (x # p) # ps))"

definition load_visited_urls :: "env \<Rightarrow> state \<Rightarrow> string set" where
  \<comment> \<open>\<open>_load_visited_urls\<close>\<close>
  "load_visited_urls E st =
     (case visited_urls_file st of
        None \<Rightarrow> {}
      | Some content \<Rightarrow>
          if load_fails E then {}
          else set (filter (\<lambda>line. line \<noteq> []) (map strip (file_lines content))))"

definition save_visited_urls :: "env \<Rightarrow> state \<Rightarrow> state" where
  \<comment> \<open>\<open>_save_visited_urls\<close>; a failure is one of opening the file, which leaves it as it was\<close>
  "save_visited_urls E st =
     (if save_fails E then st
      else log_event Write_visited_urls
             (st\<lparr>visited_urls_file :=
                   Some (concat (map (\<lambda>url. url @ [CHR 0x0A])
                                   (sorted_list_of_set (visited_urls st))))\<rparr>))"

definition default_reason :: string where
  \<comment> \<open>the default value of \<open>reason\<close>, in UTF-8\<close>
  "default_reason = [CHR 0xEB, CHR 0xB3, CHR 0xB4, CHR 0xEC, CHR 0x95, CHR 0x88, CHR 0x20,
                     CHR 0xEA, CHR 0xB0, CHR 0x90, CHR 0xEC, CHR 0xA7, CHR 0x80]"

definition create_break_point :: "env \<Rightarrow> real \<Rightarrow> string \<Rightarrow> state \<Rightarrow> state" where
  \<comment> \<open>\<open>_create_break_point(reason)\<close>; the second argument is the time of the call\<close>
  "create_break_point E now reason st =
     (if create_fails E then st
      else log_event Write_break_point
             (st\<lparr>break_point_file :=
                   Some (now, ''Break point created: '' @ strftime E now @ [CHR 0x0A]
                              @ ''Reason: '' @ reason @ [CHR 0x0A])\<rparr>))"

section \<open>URL normalizer\<close>

definition attr_candidate :: "string option \<Rightarrow> string list" where
  \<comment> \<open>an attribute that is present and not empty gives its stripped value\<close>
  "attr_candidate v = (case v of None \<Rightarrow> [] | Some h \<Rightarrow> if h \<noteq> [] then [strip h] else [])"

definition a_tag_candidates :: "a_tag \<Rightarrow> string list" where
  "a_tag_candidates a =
     attr_candidate (href a) @ attr_candidate (data_href a)
     @ (case onclick a of None \<Rightarrow> [] | Some oc \<Rightarrow> if oc \<noteq> [] then findall_onclick_urls oc else [])"

definition url_candidates :: "soup \<Rightarrow> string set" where
  \<comment> \<open>steps 1 to 3 of \<open>_extract_url_candidates\<close>\<close>
  "url_candidates sp =
     set (concat (map a_tag_candidates (find_all_a sp))) \<union> set (findall_text_urls (text_content sp))"

definition resolve_candidate :: "pylib \<Rightarrow> string \<Rightarrow> string \<Rightarrow> error + string" where
  \<comment> \<open>the value of \<open>url\<close> after the \<open>if\<close> and \<open>elif\<close> of the normalisation loop\<close>
  "resolve_candidate L base_netloc url =
     (if starts_with url ''//'' then Inr (''https:'' @ url)
      else case urlparse L url of
             Inl e \<Rightarrow> Inl e
           | Inr p \<Rightarrow> if scheme p = [] then urljoin L (base_netloc @ ''/'') url else Inr url)"

definition normalize_candidate :: "pylib \<Rightarrow> string \<Rightarrow> string \<Rightarrow> string option" where
  \<comment> \<open>the URL that the normalisation loop adds for a candidate, if it adds one; an exception
      is caught and the candidate is passed over\<close>
  "normalize_candidate L base_netloc url =
     (case resolve_candidate L base_netloc url of
        Inl e \<Rightarrow> None
      | Inr url' \<Rightarrow>
          (case urlparse L url' of
             Inl e \<Rightarrow> None
           | Inr parsed \<Rightarrow>
               if scheme parsed \<in> {''http'', ''https''} \<and> netloc parsed \<noteq> []
               then Some url' else None))"

definition normalize_step :: "pylib \<Rightarrow> string \<Rightarrow> string \<Rightarrow> string set \<Rightarrow> string set" where
  "normalize_step L base_netloc url normalized_urls =
     (case normalize_candidate L base_netloc url of
        None \<Rightarrow> normalized_urls
      | Some url' \<Rightarrow> insert url' normalized_urls)"

definition normalize_urls :: "pylib \<Rightarrow> string \<Rightarrow> string list \<Rightarrow> error + string set" where
  \<comment> \<open>step 4 of \<open>_extract_url_candidates\<close>; the base URL is parsed outside the handler of the
      loop, so its \<open>ValueError\<close> leaves the function\<close>
  "normalize_urls L base_url candidates =
     (case urlparse L base_url of
        Inl e \<Rightarrow> Inl e
      | Inr base_parsed \<Rightarrow>
          Inr (fold (normalize_step L (scheme base_parsed @ ''://'' @ netloc base_parsed))
                 candidates {}))"

definition extract_url_candidates :: "pylib \<Rightarrow> env \<Rightarrow> string \<Rightarrow> string \<Rightarrow> error + string set" where
  \<comment> \<open>\<open>_extract_url_candidates\<close>\<close>
  "extract_url_candidates L E html_content base_url =
     (case beautiful_soup E html_content of
        Inl e \<Rightarrow> Inl e
      | Inr sp \<Rightarrow> normalize_urls L base_url (sorted_list_of_set (url_candidates sp)))"

section \<open>Post collector\<close>

definition caught :: "error + string set \<Rightarrow> string set" where
  \<comment> \<open>what an item contributes when its exception is caught: nothing\<close>
  "caught r = (case r of Inl e \<Rightarrow> {} | Inr s \<Rightarrow> s)"

definition extract_post_url :: "pylib \<Rightarrow> element \<Rightarrow> string \<Rightarrow> string option \<Rightarrow> error + string" where
  \<comment> \<open>\<open>_extract_post_url\<close>: on damoang.net the second anchor is taken, when there is one\<close>
  "extract_post_url L el base_url host =
     (let a_tag = (if host = Some ''damoang.net'' \<and> find_a el \<noteq> None \<and> find_next_a el \<noteq> None
                   then find_next_a el else find_a el)
      in case a_tag of
           None \<Rightarrow> Inr []
         | Some h \<Rightarrow> if h \<noteq> [] then urljoin L base_url h else Inr [])"

definition naver_keywords :: "string list" where
  \<comment> \<open>the keywords of \<open>_is_naver_related_post\<close>, the Korean ones in UTF-8\<close>
  "naver_keywords =
     [[CHR 0xEB, CHR 0x84, CHR 0xA4, CHR 0xEC, CHR 0x9D, CHR 0xB4, CHR 0xEB, CHR 0xB2, CHR 0x84],
      ''naver'',
      [CHR 0xED, CHR 0x8F, CHR 0xAC, CHR 0xEC, CHR 0x9D, CHR 0xB8, CHR 0xED, CHR 0x8A, CHR 0xB8],
      ''point'',
      [CHR 0xEC, CHR 0xA0, CHR 0x81, CHR 0xEB, CHR 0xA6, CHR 0xBD]]"

definition is_naver_related_post :: "element \<Rightarrow> bool" where
  \<comment> \<open>\<open>_is_naver_related_post\<close>\<close>
  "is_naver_related_post el =
     list_ex (\<lambda>keyword. contains keyword (lower (get_text el))) naver_keywords"

definition post_step :: "pylib \<Rightarrow> string \<Rightarrow> string option \<Rightarrow> element \<Rightarrow> string set \<Rightarrow> string set" where
  \<comment> \<open>the body of the loop over the elements of a listing page; an exception is caught and
      the element is passed over\<close>
  "post_step L site_url host el posts =
     (case extract_post_url L el site_url host of
        Inl e \<Rightarrow> posts
      | Inr post_url \<Rightarrow>
          if post_url \<noteq> [] \<and> is_naver_related_post el then insert post_url posts else posts)"

definition site_posts :: "pylib \<Rightarrow> env \<Rightarrow> string \<Rightarrow> site_config \<Rightarrow> error + string set" where
  \<comment> \<open>the body of the \<open>try\<close> of \<open>_collect_posts_from_site\<close>\<close>
  "site_posts L E site_url site_cfg =
     (case requests_get E site_url of
        Inl e \<Rightarrow> Inl e
      | Inr response0 \<Rightarrow>
         (case raise_for_status response0 of
            Inl e \<Rightarrow> Inl e
          | Inr response \<Rightarrow>
             (case beautiful_soup E (response_text response) of
                Inl e \<Rightarrow> Inl e
              | Inr sp \<Rightarrow>
                 (case urlparse L site_url of
                    Inl e \<Rightarrow> Inl e
                  | Inr parsed \<Rightarrow>
                      Inr (fold (post_step L site_url (hostname parsed))
                             (find_all sp (tag site_cfg) (class_name site_cfg)) {})))))"

definition collect_posts_from_site ::
  "pylib \<Rightarrow> env \<Rightarrow> string \<Rightarrow> site_config \<Rightarrow> state \<Rightarrow> string set \<times> state" where
  \<comment> \<open>\<open>_collect_posts_from_site\<close>: both handlers log the failure, and the set returned is the
      empty one the function starts with\<close>
  "collect_posts_from_site L E site_url site_cfg st =
     (case site_posts L E site_url site_cfg of
        Inl e \<Rightarrow> ({}, log_event (Requests_get site_url) st)
      | Inr posts \<Rightarrow> (posts, log_event (Requests_get site_url) st))"

definition collect_step ::
  "pylib \<Rightarrow> env \<Rightarrow> string \<times> site_config \<Rightarrow> string set \<times> state \<Rightarrow> string set \<times> state" where
  \<comment> \<open>the body of the loop of \<open>_collect_posts_from_sites\<close>\<close>
  "collect_step L E site acc =
     (case collect_posts_from_site L E (fst site) (snd site) (snd acc) of
        (posts, st') \<Rightarrow> (fst acc \<union> posts, st'))"

definition collect_posts_from_sites :: "pylib \<Rightarrow> config \<Rightarrow> env \<Rightarrow> state \<Rightarrow> string set \<times> state" where
  \<comment> \<open>\<open>_collect_posts_from_sites\<close>\<close>
  "collect_posts_from_sites L cfg E st = fold (collect_step L E) (SCRAPING_SITES cfg) ({}, st)"

section \<open>Campaign discoverer\<close>

definition post_campaigns :: "pylib \<Rightarrow> env \<Rightarrow> string \<Rightarrow> error + string set" where
  \<comment> \<open>the body of the \<open>try\<close> of \<open>campaign_scrap\<close>: the campaign URLs of one post\<close>
  "post_campaigns L E post_url =
     (case requests_get E post_url of
        Inl e \<Rightarrow> Inl e
      | Inr response0 \<Rightarrow>
         (case raise_for_status response0 of
            Inl e \<Rightarrow> Inl e
          | Inr response \<Rightarrow>
             (case extract_url_candidates L E (response_text response) post_url of
                Inl e \<Rightarrow> Inl e
              | Inr candidates \<Rightarrow>
                  Inr (filter_campaign_urls L (sorted_list_of_set candidates)))))"

definition scrap_step ::
  "pylib \<Rightarrow> env \<Rightarrow> string \<Rightarrow> string set \<times> state \<Rightarrow> string set \<times> state" where
  \<comment> \<open>the body of the loop of \<open>campaign_scrap\<close>\<close>
  "scrap_step L E post_url acc =
     (if post_url \<in> visited_urls (snd acc) then acc
      else case post_campaigns L E post_url of
             Inl e \<Rightarrow> (fst acc, log_event (Requests_get post_url) (snd acc))
           | Inr new_campaigns \<Rightarrow>
               (fst acc \<union> new_campaigns, log_event (Requests_get post_url) (snd acc)))"

definition campaign_scrap :: "pylib \<Rightarrow> env \<Rightarrow> string list \<Rightarrow> state \<Rightarrow> string set \<times> state" where
  \<comment> \<open>\<open>campaign_scrap\<close>; the argument lists the set of posts in the order the loop visits it\<close>
  "campaign_scrap L E posts st =
     (if posts = [] then ({}, st) else fold (scrap_step L E) posts ({}, st))"

section \<open>Visit orchestrator\<close>

definition get_naver_accounts :: "config \<Rightarrow> (string \<times> string) list" where
  \<comment> \<open>\<open>_get_naver_accounts\<close>\<close>
  "get_naver_accounts cfg =
     filter (\<lambda>(naver_id, naver_pw).
               naver_id \<noteq> [] \<and> naver_pw \<noteq> []
               \<and> \<not> starts_with naver_id ''your_naver_id''
               \<and> \<not> starts_with naver_pw ''your_password'')
            (naver_login_info cfg)"

definition click_point_and_dwell :: "env \<Rightarrow> string \<Rightarrow> string \<Rightarrow> state \<Rightarrow> bool \<times> state" where
  \<comment> \<open>\<open>click_point_and_dwell\<close> on the page at the given URL: the selectors are tried in
      order, and the result says whether a control was clicked; the dwell that follows
      changes nothing in the state\<close>
  "click_point_and_dwell E account_id current_url st =
     (if claim_clicked E account_id current_url
      then (True, log_event (Click_point account_id current_url) st)
      else (False, st))"

definition process_campaign_site ::
  "pylib \<Rightarrow> env \<Rightarrow> string \<Rightarrow> string \<Rightarrow> state \<Rightarrow> bool \<times> state" where
  \<comment> \<open>\<open>_process_campaign_site\<close> for the page at the given URL; an exception gives \<open>False\<close>\<close>
  "process_campaign_site L E account_id current_url st =
     (case urlparse L current_url of
        Inl e \<Rightarrow> (False, st)
      | Inr parsed_url \<Rightarrow>
          if netloc parsed_url = ''campaign2.naver.com''
             \<and> contains ''/npay/v2/click-point/'' (path parsed_url)
          then click_point_and_dwell E account_id current_url st
          else if netloc parsed_url = ''ofw.adison.co''
                  \<and> contains ''/u/naverpay/ads/'' (path parsed_url)
          then (True, st)
          else (True, st))"

definition visit_step ::
  "pylib \<Rightarrow> env \<Rightarrow> string \<Rightarrow> string \<Rightarrow> nat \<times> state \<Rightarrow> nat \<times> state" where
  \<comment> \<open>the body of the loop of \<open>_visit_campaign_links\<close>, on the count of successes and the
      state; an exception is caught and the link is not counted\<close>
  "visit_step L E account_id link acc =
     (case driver_get E account_id link of
        Inl e \<Rightarrow> (fst acc, log_event (Driver_get account_id link) (snd acc))
      | Inr current_url \<Rightarrow>
          (case process_campaign_site L E account_id current_url
                  (log_event (Driver_get account_id link) (snd acc)) of
             (ok, st') \<Rightarrow> (if ok then fst acc + 1 else fst acc, st')))"

definition visit_campaign_links ::
  "pylib \<Rightarrow> env \<Rightarrow> string list \<Rightarrow> string \<Rightarrow> state \<Rightarrow> nat \<times> state" where
  \<comment> \<open>\<open>_visit_campaign_links\<close>: the count of successes that the function logs, and the state\<close>
  "visit_campaign_links L E campaign_links account_id st =
     fold (visit_step L E account_id) campaign_links (0, st)"

definition account_step ::
  "pylib \<Rightarrow> env \<Rightarrow> string list \<Rightarrow> string \<times> string \<Rightarrow> state \<Rightarrow> state" where
  \<comment> \<open>the body of the loop of \<open>get_coin\<close>: an exception of the session is caught and logged,
      and a session that was created is closed on every path\<close>
  "account_step L E campaign_links account st =
     (case account of (account_id, password) \<Rightarrow>
        if account_id = [] \<or> password = [] then st
        else if \<not> firefox_starts E account_id then st
        else
          let st1 = log_event (Firefox_start account_id) st;
              st2 = (if login_succeeds E account_id
                     then snd (visit_campaign_links L E campaign_links account_id st1) else st1)
          in log_event (Driver_quit account_id) st2)"

definition get_coin :: "pylib \<Rightarrow> config \<Rightarrow> env \<Rightarrow> string set \<Rightarrow> state \<Rightarrow> state" where
  \<comment> \<open>\<open>get_coin\<close>\<close>
  "get_coin L cfg E campaign_links st =
     (if campaign_links = {} then st
      else if get_naver_accounts cfg = [] then st
      else fold (account_step L E (sorted_list_of_set campaign_links)) (get_naver_accounts cfg) st)"

section \<open>A run\<close>

text \<open>
  Python does not fix the order in which a loop visits a set. Where the source passes a set
  on to a loop, the model passes the sorted list of its elements.
\<close>

definition post_scrap :: "pylib \<Rightarrow> config \<Rightarrow> env \<Rightarrow> state \<Rightarrow> state" where
  \<comment> \<open>\<open>post_scrap\<close>\<close>
  "post_scrap L cfg E st =
     (case collect_posts_from_sites L cfg E st of
        (posts, st1) \<Rightarrow>
          if posts = {} then st1
          else
            (case campaign_scrap L E (sorted_list_of_set posts) st1 of
               (campaign_links, st2) \<Rightarrow>
                 let st3 = (if campaign_links = {} then st2
                            else get_coin L cfg E campaign_links st2)
                 in save_visited_urls E (st3\<lparr>visited_urls := posts\<rparr>)))"

definition init :: "config \<Rightarrow> env \<Rightarrow> real \<Rightarrow> state \<Rightarrow> exit + state" where
  \<comment> \<open>\<open>NaverCoinScraper.__init__\<close>: the gate, then the visited set\<close>
  "init cfg E now st =
     (case check_break_point cfg now st of
        Inl x \<Rightarrow> Inl x
      | Inr st1 \<Rightarrow> Inr (st1\<lparr>visited_urls := load_visited_urls E st1\<rparr>))"

definition main :: "pylib \<Rightarrow> config \<Rightarrow> env \<Rightarrow> real \<Rightarrow> state \<Rightarrow> int \<times> state" where
  \<comment> \<open>\<open>main\<close>: the exit status of the process and the state it leaves\<close>
  "main L cfg E now st =
     (if lock_busy E then (1, st)
      else case init cfg E now st of
             Inl (SystemExit code) \<Rightarrow> (code, st)
           | Inr st1 \<Rightarrow> (0, post_scrap L cfg E st1))"

section \<open>Dwell simulator\<close>

text \<open>
  One call of \<open>dwell_and_scroll\<close> is modelled on the clock. The browser's part is a
  parameter: how long the wait for the page takes, what the two measurements return (a
  number, nothing, or an exception) and how long they take, how long the scroll sequence
  takes, the jitter drawn for the last sleep, and by how much that sleep overruns.
  Times are real numbers.
\<close>

record browser =
  wait_time :: real
  total_height :: "error + real option"
  viewport_height :: "error + real option"
  measure_time :: real
  scrolling_time :: real
  jitter :: real
  oversleep :: real

definition after_scrolling :: "browser \<Rightarrow> real \<Rightarrow> real" where
  \<comment> \<open>the time when the second \<open>try\<close> of \<open>dwell_and_scroll\<close> is left, for a call that
      started at the given time; exceptions of both \<open>try\<close> blocks are caught and logged\<close>
  "after_scrolling B start_time =
     (let t1 = start_time + wait_time B + measure_time B in
      case total_height B of
        Inl e \<Rightarrow> t1
      | Inr th \<Rightarrow>
         (case viewport_height B of
            Inl e \<Rightarrow> t1
          | Inr vh \<Rightarrow>
              let total = (case th of None \<Rightarrow> 0 | Some h \<Rightarrow> h);
                  viewport = (case vh of None \<Rightarrow> 800 | Some h \<Rightarrow> if h = 0 then 800 else h);
                  scrollable_height = max 0 (total - viewport)
              in if scrollable_height > 0 then t1 + scrolling_time B else t1))"

definition sleep_time :: "browser \<Rightarrow> real \<Rightarrow> real \<Rightarrow> real option" where
  \<comment> \<open>the argument of the last \<open>time.sleep\<close>, if the sleep takes place\<close>
  "sleep_time B min_seconds start_time =
     (let elapsed = after_scrolling B start_time - start_time;
          remaining = min_seconds - elapsed
      in if remaining > 0 then Some (remaining + jitter B) else None)"

definition dwell_and_scroll :: "config \<Rightarrow> browser \<Rightarrow> int option \<Rightarrow> real \<Rightarrow> real" where
  \<comment> \<open>\<open>dwell_and_scroll\<close>: the time when the call returns, for a call at the given time\<close>
  "dwell_and_scroll cfg B min_seconds start_time =
     (let m = real_of_int (case min_seconds of None \<Rightarrow> MIN_DWELL_TIME cfg | Some s \<Rightarrow> s) in
      case sleep_time B m start_time of
        None \<Rightarrow> after_scrolling B start_time
      | Some t \<Rightarrow> after_scrolling B start_time + t + oversleep B)"

section \<open>A sample world\<close>

text \<open>
  One board answers and one is down. The listing of the board that answers has three
  elements, two of them about points; the post \<open>/a\<close> links a point campaign, the post \<open>/b\<close>
  cannot be fetched. Of the two accounts, the browser starts for the first only; it
  reaches every link it is sent to and finds the claim control there.
\<close>

definition sample_lib :: pylib where
  "sample_lib = \<lparr>check_bracketed_host = (\<lambda>h. True), checknetloc = (\<lambda>n. True)\<rparr>"

definition sample_config :: config where
  "sample_config =
     \<lparr>DELAY_HOURS = 48, MIN_DWELL_TIME = 6,
      SCRAPING_SITES =
        [(''https://good.example/board'',
          \<lparr>tag = ''td'', class_name = ''subject'', domain = ''good.example''\<rparr>),
         (''https://down.example/board'',
          \<lparr>tag = ''td'', class_name = ''subject'', domain = ''down.example''\<rparr>)],
      naver_login_info = [(''user1'', ''secret1''), (''user2'', ''secret2'')]\<rparr>"

definition sample_listing :: soup where
  "sample_listing =
     \<lparr>find_all_a = [], text_content = [],
      find_all = (\<lambda>t c. if t = ''td'' \<and> c = ''subject''
                         then [\<lparr>find_a = Some ''/a'', find_next_a = None, get_text = ''Naver Point''\<rparr>,
                               \<lparr>find_a = Some ''/b'', find_next_a = None, get_text = ''point event''\<rparr>,
                               \<lparr>find_a = Some ''/c'', find_next_a = None, get_text = ''hello''\<rparr>]
                         else [])\<rparr>"

definition sample_post :: soup where
  "sample_post =
     \<lparr>find_all_a =
        [\<lparr>href = Some ''https://campaign2.naver.com/npay/v2/click-point/abc?eventId=7'',
          data_href = None, onclick = None\<rparr>,
         \<lparr>href = Some ''/about'', data_href = None, onclick = None\<rparr>],
      text_content = [], find_all = (\<lambda>t c. [])\<rparr>"

definition sample_env :: env where
  "sample_env =
     \<lparr>requests_get =
        (\<lambda>url. if url = ''https://good.example/board''
                  then Inr \<lparr>status_code = 200, response_text = ''LISTING''\<rparr>
                else if url = ''https://good.example/a''
                  then Inr \<lparr>status_code = 200, response_text = ''POST''\<rparr>
                else Inl RequestException),
      beautiful_soup =
        (\<lambda>html. if html = ''LISTING'' then Inr sample_listing
                 else if html = ''POST'' then Inr sample_post
                 else Inl OtherException),
      firefox_starts = (\<lambda>account_id. account_id = ''user1''),
      login_succeeds = (\<lambda>account_id. True),
      driver_get = (\<lambda>account_id link. Inr link),
      claim_clicked = (\<lambda>account_id url. True),
      lock_busy = False, load_fails = False, save_fails = False, create_fails = False,
      strftime = (\<lambda>t. ''2025-01-01 00:00:00'')\<rparr>"

definition sample_state :: state where
  "sample_state =
     \<lparr>visited_urls = {},
      visited_urls_file = Some (''https://good.example/old'' @ [CHR 0x0A]),
      break_point_file = None,
      trace = []\<rparr>"

definition blocked_env :: env where
  \<comment> \<open>the sample world with no claim control on any page\<close>
  "blocked_env = sample_env\<lparr>claim_clicked := (\<lambda>account_id url. False)\<rparr>"

definition offline_env :: env where
  \<comment> \<open>the sample world with every request failing\<close>
  "offline_env = sample_env\<lparr>requests_get := (\<lambda>url. Inl RequestException)\<rparr>"

section \<open>Auxiliary notions for the statements\<close>

fun is_browser_event :: "event \<Rightarrow> bool" where
  "is_browser_event (Firefox_start a) = True"
| "is_browser_event (Driver_get a link) = True"
| "is_browser_event (Click_point a url) = True"
| "is_browser_event (Driver_quit a) = True"
| "is_browser_event e = False"

fun touches_marker :: "event \<Rightarrow> bool" where
  \<comment> \<open>the two operations on \<open>break-point.html\<close>\<close>
  "touches_marker Unlink_break_point = True"
| "touches_marker Write_break_point = True"
| "touches_marker e = False"

definition new_events :: "state \<Rightarrow> state \<Rightarrow> event list" where
  \<comment> \<open>the events of the second state that come after those of the first\<close>
  "new_events st st' = drop (length (trace st)) (trace st')"

definition plain :: "string \<Rightarrow> bool" where
  \<comment> \<open>a string that a line of a file gives back as it is: not empty, no line end inside,
      no white space at either end\<close>
  "plain u = (u \<noteq> [] \<and> \<not> list_ex is_newline u \<and> strip u = u)"

definition visited_lines :: "string set \<Rightarrow> string" where
  \<comment> \<open>the text that \<open>_save_visited_urls\<close> writes for a set: its elements in sorted order,
      each followed by a line feed\<close>
  "visited_lines urls = concat (map (\<lambda>url. url @ [CHR 0x0A]) (sorted_list_of_set urls))"

definition sample_browser :: browser where
  \<comment> \<open>a page that is lower than the window, so that there is nothing to scroll\<close>
  "sample_browser =
     \<lparr>wait_time = 3 / 2, total_height = Inr (Some 600), viewport_height = Inr (Some 800),
      measure_time = 1 / 10, scrolling_time = 7, jitter = 1 / 2, oversleep = 1 / 100\<rparr>"

section \<open>Properties of the campaign filter\<close>

lemma campaign_step_cases:
  "campaign_step L url S = (if is_campaign L url then insert url S else S)"
  by (auto simp add: is_campaign_def campaign_step_def split: sum.splits)

lemma fold_campaign_step:
  "fold (campaign_step L) urls S = S \<union> {u \<in> set urls. is_campaign L u}"
proof (induction urls arbitrary: S)
  case Nil
  show ?case by simp
next
  case (Cons u urls)
  show ?case
    unfolding fold_simps Cons.IH by (auto simp add: campaign_step_cases)
qed

lemma filter_campaign_urls_eq:
  "filter_campaign_urls L urls = {u \<in> set urls. is_campaign L u}"
  by (simp add: filter_campaign_urls_def fold_campaign_step)

lemma starts_with_iff: "starts_with s p \<longleftrightarrow> (\<exists>suf. s = p @ suf)"
  by (induction s p rule: starts_with.induct) auto

lemma contains_iff: "contains sub s \<longleftrightarrow> (\<exists>pre suf. s = pre @ sub @ suf)"
proof (induction s)
  case Nil
  show ?case by auto
next
  case (Cons c cs)
  show ?case
  proof
    assume "contains sub (c # cs)"
    then consider "starts_with (c # cs) sub" | "contains sub cs" by auto
    then show "\<exists>pre suf. c # cs = pre @ sub @ suf"
    proof cases
      case 1
      then obtain suf where "c # cs = sub @ suf" using starts_with_iff by blast
      then have "c # cs = [] @ sub @ suf" by simp
      then show ?thesis by blast
    next
      case 2
      then obtain pre suf where "cs = pre @ sub @ suf" using Cons.IH by blast
      then have "c # cs = (c # pre) @ sub @ suf" by simp
      then show ?thesis by blast
    qed
  next
    assume "\<exists>pre suf. c # cs = pre @ sub @ suf"
    then obtain pre suf where e: "c # cs = pre @ sub @ suf" by blast
    show "contains sub (c # cs)"
    proof (cases pre)
      case Nil
      then have "starts_with (c # cs) sub" using e starts_with_iff by auto
      then show ?thesis by simp
    next
      case (Cons d pre')
      then have "cs = pre' @ sub @ suf" using e by simp
      then have "contains sub cs" using Cons.IH by blast
      then show ?thesis by simp
    qed
  qed
qed

lemma contains_lower: "contains sub s \<Longrightarrow> contains (lower sub) (lower s)"
  unfolding contains_iff lower_def by (metis map_append)

lemma contains_trans: "contains a b \<Longrightarrow> contains b c \<Longrightarrow> contains a c"
  unfolding contains_iff by (metis append.assoc)

text \<open>
  The test for \<open>eventId\<close> in the point-claim rule does not change what the filter keeps:
  a URL with the host and the path of that rule is kept by the generic keyword rule,
  whatever its query.
\<close>

lemma click_point_guard_dead:
  assumes "urlparse L url = Inr parsed"
    and "netloc parsed = ''campaign2.naver.com''"
    and "contains ''/npay/v2/click-point/'' (path parsed)"
  shows "is_campaign L url"
proof -
  have l: "lower ''/npay/v2/click-point/'' = ''/npay/v2/click-point/''"
    by (simp add: lower_def lower_char_def)
  have c1: "contains ''/npay/v2/click-point/'' (lower (path parsed))"
    using contains_lower [OF assms(3)] unfolding l .
  have c2: "contains ''point'' ''/npay/v2/click-point/''"
    by simp
  have p: "contains ''point'' (lower (path parsed))"
    by (rule contains_trans [OF c2 c1])
  have n: "contains ''naver'' (netloc parsed)"
    unfolding assms(2) by simp
  have k: "list_ex (\<lambda>keyword. contains keyword (lower (path parsed)))
             [''point'', ''campaign'', ''event'']"
    using p by simp
  show ?thesis
    unfolding is_campaign_def campaign_step_def assms(1)
    using n k by simp
qed

lemmas url_eval =
  urlparse_def urlparse_scheme_def urlsplit_def split_scheme_def splitnetloc_def is_delim_def
  is_unsafe_def is_c0_or_space_def split_first_def ascii_letters_def scheme_chars_def
  lower_def lower_char_def uses_params_def splitparams_def bracketed_host_def

lemmas filter_eval =
  filter_campaign_urls_def campaign_step_def parse_qs_def parse_qsl_def plus_to_space_def
  hex_val_def

text \<open>
  C1. The filter keeps \<open>https://campaign2.naver.com/npay/v2/click-point/abc?eventId=1\<close>.
  It keeps the same URL without the \<open>eventId\<close> parameter as well: the point-claim rule
  rejects it, and the generic keyword rule then accepts it, because the host contains
  \<open>naver\<close> and the path contains \<open>point\<close>.
\<close>

theorem filter_click_point_without_eventId:
  "filter_campaign_urls L [''https://campaign2.naver.com/npay/v2/click-point/abc?eventId=1'']
     = {''https://campaign2.naver.com/npay/v2/click-point/abc?eventId=1''}
   \<and> filter_campaign_urls L [''https://campaign2.naver.com/npay/v2/click-point/abc'']
     = {''https://campaign2.naver.com/npay/v2/click-point/abc''}"
  by (simp add: url_eval filter_eval)

text \<open>
  C8. The filter is idempotent: filtering any enumeration of the filtered set gives the
  filtered set again, and every URL of the output is kept when it is filtered on its own.
\<close>

theorem filter_campaign_urls_idempotent:
  assumes "set ys = filter_campaign_urls L xs"
  shows "filter_campaign_urls L ys = filter_campaign_urls L xs
         \<and> (\<forall>u \<in> filter_campaign_urls L xs. filter_campaign_urls L [u] = {u})"
  using assms by (auto simp add: filter_campaign_urls_eq)

theorem filter_campaign_urls_idempotent_witness:
  "set [''https://ofw.adison.co/u/naverpay/ads/7'']
     = filter_campaign_urls \<lparr>check_bracketed_host = (\<lambda>h. True), checknetloc = (\<lambda>n. True)\<rparr>
         [''https://example.com/event'', ''https://ofw.adison.co/u/naverpay/ads/7'']
   \<and> filter_campaign_urls \<lparr>check_bracketed_host = (\<lambda>h. True), checknetloc = (\<lambda>n. True)\<rparr>
         [''https://ofw.adison.co/u/naverpay/ads/7'']
     = filter_campaign_urls \<lparr>check_bracketed_host = (\<lambda>h. True), checknetloc = (\<lambda>n. True)\<rparr>
         [''https://example.com/event'', ''https://ofw.adison.co/u/naverpay/ads/7'']"
proof -
  have h: "set [''https://ofw.adison.co/u/naverpay/ads/7'']
     = filter_campaign_urls \<lparr>check_bracketed_host = (\<lambda>h. True), checknetloc = (\<lambda>n. True)\<rparr>
         [''https://example.com/event'', ''https://ofw.adison.co/u/naverpay/ads/7'']"
    by (simp add: url_eval filter_eval)
  from filter_campaign_urls_idempotent [OF h] h show ?thesis by blast
qed

section \<open>The loops of the collector and of the discoverer\<close>

lemma log_event_simps [simp]:
  "visited_urls (log_event e st) = visited_urls st"
  "visited_urls_file (log_event e st) = visited_urls_file st"
  "break_point_file (log_event e st) = break_point_file st"
  "trace (log_event e st) = trace st @ [e]"
  by (simp_all add: log_event_def)

lemma collect_posts_from_site_eq:
  "collect_posts_from_site L E u c st
     = (caught (site_posts L E u c), log_event (Requests_get u) st)"
  by (simp add: collect_posts_from_site_def caught_def split: sum.splits)

lemma collect_step_eq:
  "collect_step L E s (acc, st)
     = (acc \<union> caught (site_posts L E (fst s) (snd s)), log_event (Requests_get (fst s)) st)"
  by (simp add: collect_step_def collect_posts_from_site_eq)

lemma fold_collect_step:
  "fold (collect_step L E) sites (acc, st)
     = (acc \<union> (\<Union>s \<in> set sites. caught (site_posts L E (fst s) (snd s))),
        st\<lparr>trace := trace st @ map (\<lambda>s. Requests_get (fst s)) sites\<rparr>)"
proof (induction sites arbitrary: acc st)
  case Nil
  show ?case by simp
next
  case (Cons s sites)
  have "fold (collect_step L E) (s # sites) (acc, st)
          = fold (collect_step L E) sites
              (acc \<union> caught (site_posts L E (fst s) (snd s)), log_event (Requests_get (fst s)) st)"
    by (simp only: fold_simps collect_step_eq)
  also have "\<dots> = (acc \<union> (\<Union>s \<in> set (s # sites). caught (site_posts L E (fst s) (snd s))),
        st\<lparr>trace := trace st @ map (\<lambda>s. Requests_get (fst s)) (s # sites)\<rparr>)"
    unfolding Cons.IH by (simp add: log_event_def Un_assoc)
  finally show ?case .
qed

lemma collect_posts_from_sites_eq:
  "collect_posts_from_sites L cfg E st
     = ((\<Union>s \<in> set (SCRAPING_SITES cfg). caught (site_posts L E (fst s) (snd s))),
        st\<lparr>trace := trace st @ map (\<lambda>s. Requests_get (fst s)) (SCRAPING_SITES cfg)\<rparr>)"
  by (simp add: collect_posts_from_sites_def fold_collect_step)

lemma scrap_step_eq:
  "scrap_step L E p (acc, st)
     = (if p \<in> visited_urls st then (acc, st)
        else (acc \<union> caught (post_campaigns L E p), log_event (Requests_get p) st))"
  by (simp add: scrap_step_def caught_def split: sum.splits)

lemma fold_scrap_step:
  "fold (scrap_step L E) posts (acc, st)
     = (acc \<union> (\<Union>p \<in> {p \<in> set posts. p \<notin> visited_urls st}. caught (post_campaigns L E p)),
        st\<lparr>trace := trace st @ map Requests_get (filter (\<lambda>p. p \<notin> visited_urls st) posts)\<rparr>)"
proof (induction posts arbitrary: acc st)
  case Nil
  show ?case by simp
next
  case (Cons p posts)
  show ?case
  proof (cases "p \<in> visited_urls st")
    case True
    have "fold (scrap_step L E) (p # posts) (acc, st) = fold (scrap_step L E) posts (acc, st)"
      using True by (simp only: fold_simps scrap_step_eq if_True)
    also have "\<dots> = (acc \<union> (\<Union>q \<in> {q \<in> set (p # posts). q \<notin> visited_urls st}.
                                caught (post_campaigns L E q)),
        st\<lparr>trace := trace st @ map Requests_get (filter (\<lambda>q. q \<notin> visited_urls st) (p # posts))\<rparr>)"
    proof -
      have "{q \<in> set (p # posts). q \<notin> visited_urls st} = {q \<in> set posts. q \<notin> visited_urls st}"
        using True by auto
      then show ?thesis unfolding Cons.IH using True by simp
    qed
    finally show ?thesis .
  next
    case False
    have "fold (scrap_step L E) (p # posts) (acc, st)
            = fold (scrap_step L E) posts
                (acc \<union> caught (post_campaigns L E p), log_event (Requests_get p) st)"
      using False by (simp only: fold_simps scrap_step_eq if_False)
    also have "\<dots> = (acc \<union> (\<Union>q \<in> {q \<in> set (p # posts). q \<notin> visited_urls st}.
                                caught (post_campaigns L E q)),
        st\<lparr>trace := trace st @ map Requests_get (filter (\<lambda>q. q \<notin> visited_urls st) (p # posts))\<rparr>)"
    proof -
      have "{q \<in> set (p # posts). q \<notin> visited_urls st}
              = insert p {q \<in> set posts. q \<notin> visited_urls st}"
        using False by auto
      then show ?thesis unfolding Cons.IH using False by (simp add: log_event_def Un_assoc)
    qed
    finally show ?thesis .
  qed
qed

lemma campaign_scrap_eq:
  "campaign_scrap L E posts st
     = ((\<Union>p \<in> {p \<in> set posts. p \<notin> visited_urls st}. caught (post_campaigns L E p)),
        st\<lparr>trace := trace st @ map Requests_get (filter (\<lambda>p. p \<notin> visited_urls st) posts)\<rparr>)"
  by (simp add: campaign_scrap_def fold_scrap_step)

section \<open>Frame properties of the orchestrator\<close>

lemma process_campaign_site_frame:
  "visited_urls (snd (process_campaign_site L E a u st)) = visited_urls st
   \<and> visited_urls_file (snd (process_campaign_site L E a u st)) = visited_urls_file st
   \<and> break_point_file (snd (process_campaign_site L E a u st)) = break_point_file st
   \<and> (\<exists>evs. trace (snd (process_campaign_site L E a u st)) = trace st @ evs
              \<and> list_all is_browser_event evs)"
  by (auto simp add: process_campaign_site_def click_point_and_dwell_def split: sum.splits)

lemma visit_step_frame:
  "visited_urls (snd (visit_step L E a link acc)) = visited_urls (snd acc)
   \<and> visited_urls_file (snd (visit_step L E a link acc)) = visited_urls_file (snd acc)
   \<and> break_point_file (snd (visit_step L E a link acc)) = break_point_file (snd acc)
   \<and> (\<exists>evs. trace (snd (visit_step L E a link acc)) = trace (snd acc) @ evs
              \<and> list_all is_browser_event evs)"
proof (cases "driver_get E a link")
  case (Inl e)
  then show ?thesis by (simp add: visit_step_def)
next
  case (Inr u)
  define st1 where "st1 = log_event (Driver_get a link) (snd acc)"
  obtain evs where evs: "trace (snd (process_campaign_site L E a u st1)) = trace st1 @ evs"
      "list_all is_browser_event evs"
    using process_campaign_site_frame [of L E a u st1] by blast
  have s: "snd (visit_step L E a link acc) = snd (process_campaign_site L E a u st1)"
    by (simp add: visit_step_def Inr st1_def split: prod.splits)
  have "trace (snd (visit_step L E a link acc)) = trace (snd acc) @ (Driver_get a link # evs)"
    using evs(1) by (simp add: s st1_def)
  moreover have "list_all is_browser_event (Driver_get a link # evs)"
    using evs(2) by simp
  ultimately have "\<exists>evs. trace (snd (visit_step L E a link acc)) = trace (snd acc) @ evs
              \<and> list_all is_browser_event evs"
    by blast
  then show ?thesis
    using process_campaign_site_frame [of L E a u st1] by (simp add: s st1_def)
qed

lemma fold_visit_step_frame:
  "visited_urls (snd (fold (visit_step L E a) links acc)) = visited_urls (snd acc)
   \<and> visited_urls_file (snd (fold (visit_step L E a) links acc)) = visited_urls_file (snd acc)
   \<and> break_point_file (snd (fold (visit_step L E a) links acc)) = break_point_file (snd acc)
   \<and> (\<exists>evs. trace (snd (fold (visit_step L E a) links acc)) = trace (snd acc) @ evs
              \<and> list_all is_browser_event evs)"
proof (induction links arbitrary: acc)
  case Nil
  show ?case by simp
next
  case (Cons link links)
  obtain evs1 where e1: "trace (snd (visit_step L E a link acc)) = trace (snd acc) @ evs1"
      "list_all is_browser_event evs1"
    using visit_step_frame [of L E a link acc] by blast
  obtain evs2 where e2: "trace (snd (fold (visit_step L E a) links (visit_step L E a link acc)))
        = trace (snd (visit_step L E a link acc)) @ evs2" "list_all is_browser_event evs2"
    using Cons.IH [of "visit_step L E a link acc"] by blast
  have "trace (snd (fold (visit_step L E a) (link # links) acc)) = trace (snd acc) @ (evs1 @ evs2)"
    using e1 e2 by simp
  moreover have "list_all is_browser_event (evs1 @ evs2)"
    using e1 e2 by simp
  ultimately have "\<exists>evs. trace (snd (fold (visit_step L E a) (link # links) acc))
        = trace (snd acc) @ evs \<and> list_all is_browser_event evs"
    by blast
  then show ?case
    using Cons.IH [of "visit_step L E a link acc"] visit_step_frame [of L E a link acc]
    by simp
qed

lemma visit_campaign_links_frame:
  "visited_urls (snd (visit_campaign_links L E links a st)) = visited_urls st
   \<and> visited_urls_file (snd (visit_campaign_links L E links a st)) = visited_urls_file st
   \<and> break_point_file (snd (visit_campaign_links L E links a st)) = break_point_file st
   \<and> (\<exists>evs. trace (snd (visit_campaign_links L E links a st)) = trace st @ evs
              \<and> list_all is_browser_event evs)"
  using fold_visit_step_frame [of L E a links "(0, st)"]
  by (simp add: visit_campaign_links_def)

lemma account_step_frame:
  "visited_urls (account_step L E links acct st) = visited_urls st
   \<and> visited_urls_file (account_step L E links acct st) = visited_urls_file st
   \<and> break_point_file (account_step L E links acct st) = break_point_file st
   \<and> (\<exists>evs. trace (account_step L E links acct st) = trace st @ evs
              \<and> list_all is_browser_event evs)"
proof (cases acct)
  case (Pair account_id password)
  define st1 where "st1 = log_event (Firefox_start account_id) st"
  define st2 where "st2 = (if login_succeeds E account_id
      then snd (visit_campaign_links L E links account_id st1) else st1)"
  obtain evs where evs: "trace st2 = trace st1 @ evs" "list_all is_browser_event evs"
  proof (cases "login_succeeds E account_id")
    case True
    then show ?thesis
      using visit_campaign_links_frame [of L E links account_id st1] that
      by (auto simp add: st2_def)
  next
    case False
    then have "trace st2 = trace st1 @ []" "list_all is_browser_event []"
      by (simp_all add: st2_def)
    then show ?thesis using that by blast
  qed
  have fr: "visited_urls st2 = visited_urls st" "visited_urls_file st2 = visited_urls_file st"
      "break_point_file st2 = break_point_file st"
    using visit_campaign_links_frame [of L E links account_id st1]
    by (simp_all add: st2_def st1_def)
  have t: "trace (log_event (Driver_quit account_id) st2)
      = trace st @ (Firefox_start account_id # evs @ [Driver_quit account_id])"
    using evs(1) by (simp add: st1_def)
  have b: "list_all is_browser_event (Firefox_start account_id # evs @ [Driver_quit account_id])"
    using evs(2) by simp
  have run: "\<exists>evs. trace (log_event (Driver_quit account_id) st2) = trace st @ evs
      \<and> list_all is_browser_event evs"
    using t b by blast
  have skip: "\<exists>evs. trace st = trace st @ evs \<and> list_all is_browser_event evs"
    by (rule exI [of _ "[]"]) simp
  show ?thesis
    using run skip fr
    by (simp add: Pair account_step_def Let_def st2_def [symmetric] st1_def [symmetric])
qed

lemma fold_account_step_frame:
  "visited_urls (fold (account_step L E links) accts st) = visited_urls st
   \<and> visited_urls_file (fold (account_step L E links) accts st) = visited_urls_file st
   \<and> break_point_file (fold (account_step L E links) accts st) = break_point_file st
   \<and> (\<exists>evs. trace (fold (account_step L E links) accts st) = trace st @ evs
              \<and> list_all is_browser_event evs)"
proof (induction accts arbitrary: st)
  case Nil
  show ?case by simp
next
  case (Cons acct accts)
  obtain evs1 where e1: "trace (account_step L E links acct st) = trace st @ evs1"
      "list_all is_browser_event evs1"
    using account_step_frame [of L E links acct st] by blast
  obtain evs2 where e2: "trace (fold (account_step L E links) accts (account_step L E links acct st))
        = trace (account_step L E links acct st) @ evs2" "list_all is_browser_event evs2"
    using Cons.IH [of "account_step L E links acct st"] by blast
  have "trace (fold (account_step L E links) (acct # accts) st) = trace st @ (evs1 @ evs2)"
    using e1 e2 by simp
  moreover have "list_all is_browser_event (evs1 @ evs2)"
    using e1 e2 by simp
  ultimately have "\<exists>evs. trace (fold (account_step L E links) (acct # accts) st) = trace st @ evs
              \<and> list_all is_browser_event evs"
    by blast
  then show ?case
    using Cons.IH [of "account_step L E links acct st"] account_step_frame [of L E links acct st]
    by simp
qed

lemma get_coin_frame:
  "visited_urls (get_coin L cfg E links st) = visited_urls st
   \<and> visited_urls_file (get_coin L cfg E links st) = visited_urls_file st
   \<and> break_point_file (get_coin L cfg E links st) = break_point_file st
   \<and> (\<exists>evs. trace (get_coin L cfg E links st) = trace st @ evs \<and> list_all is_browser_event evs)"
  using fold_account_step_frame [of L E "sorted_list_of_set links" "get_naver_accounts cfg" st]
  by (simp add: get_coin_def)

lemma finite_caught_site_posts: "finite (caught (site_posts L E u c))"
proof -
  have f: "finite (fold (post_step L u h) els S)" if "finite S" for h els S
    using that by (induction els arbitrary: S) (simp_all add: post_step_def split: sum.splits)
  show ?thesis
    by (auto simp add: caught_def site_posts_def f split: sum.splits)
qed

lemma finite_collected: "finite (fst (collect_posts_from_sites L cfg E st))"
  by (simp add: collect_posts_from_sites_eq finite_caught_site_posts)

lemma save_visited_urls_frame:
  "break_point_file (save_visited_urls E st) = break_point_file st
   \<and> (\<exists>evs. trace (save_visited_urls E st) = trace st @ evs \<and> \<not> list_ex touches_marker evs)"
  by (simp add: save_visited_urls_def)

lemma browser_events_leave_marker:
  "list_all is_browser_event evs \<Longrightarrow> \<not> list_ex touches_marker evs"
proof (induction evs)
  case Nil
  show ?case by simp
next
  case (Cons e evs)
  then show ?case by (cases e) simp_all
qed

lemma requests_leave_marker: "\<not> list_ex touches_marker (map Requests_get urls)"
  by (induction urls) simp_all

lemma site_requests_leave_marker:
  "\<not> list_ex touches_marker (map (\<lambda>s. Requests_get (fst s)) sites)"
  by (induction sites) simp_all

lemma post_scrap_frame:
  "break_point_file (post_scrap L cfg E st) = break_point_file st
   \<and> (\<exists>evs. trace (post_scrap L cfg E st) = trace st @ evs \<and> \<not> list_ex touches_marker evs)"
proof -
  define posts where "posts = fst (collect_posts_from_sites L cfg E st)"
  define st1 where "st1 = snd (collect_posts_from_sites L cfg E st)"
  define ev1 where "ev1 = map (\<lambda>s. Requests_get (fst s)) (SCRAPING_SITES cfg)"
  have c: "collect_posts_from_sites L cfg E st = (posts, st1)"
    by (simp add: posts_def st1_def)
  have st1: "break_point_file st1 = break_point_file st" "trace st1 = trace st @ ev1"
    by (simp_all add: st1_def ev1_def collect_posts_from_sites_eq)
  have m1: "\<not> list_ex touches_marker ev1"
    unfolding ev1_def by (rule site_requests_leave_marker)
  show ?thesis
  proof (cases "posts = {}")
    case True
    then have "post_scrap L cfg E st = st1" by (simp add: post_scrap_def c)
    then show ?thesis using st1 m1 by auto
  next
    case False
    define links where "links = fst (campaign_scrap L E (sorted_list_of_set posts) st1)"
    define st2 where "st2 = snd (campaign_scrap L E (sorted_list_of_set posts) st1)"
    define ev2 where "ev2 = map Requests_get
        (filter (\<lambda>p. p \<notin> visited_urls st1) (sorted_list_of_set posts))"
    have s: "campaign_scrap L E (sorted_list_of_set posts) st1 = (links, st2)"
      by (simp add: links_def st2_def)
    have st2: "break_point_file st2 = break_point_file st1" "trace st2 = trace st1 @ ev2"
      by (simp_all add: st2_def ev2_def campaign_scrap_eq)
    have m2: "\<not> list_ex touches_marker ev2"
      unfolding ev2_def by (rule requests_leave_marker)
    define st3 where "st3 = (if links = {} then st2 else get_coin L cfg E links st2)"
    obtain ev3 where st3: "break_point_file st3 = break_point_file st2"
        "trace st3 = trace st2 @ ev3" "\<not> list_ex touches_marker ev3"
    proof (cases "links = {}")
      case True
      then have "break_point_file st3 = break_point_file st2" "trace st3 = trace st2 @ []"
        "\<not> list_ex touches_marker []"
        by (simp_all add: st3_def)
      then show ?thesis using that by blast
    next
      case False
      then have eq: "st3 = get_coin L cfg E links st2" by (simp add: st3_def)
      obtain evs where "trace st3 = trace st2 @ evs" "list_all is_browser_event evs"
        using get_coin_frame [of L cfg E links st2] eq by auto
      moreover have "break_point_file st3 = break_point_file st2"
        using get_coin_frame [of L cfg E links st2] eq by simp
      ultimately show ?thesis using that browser_events_leave_marker by blast
    qed
    define st4 where "st4 = st3\<lparr>visited_urls := posts\<rparr>"
    have ps: "post_scrap L cfg E st = save_visited_urls E st4"
      using False by (simp add: post_scrap_def c s st3_def st4_def Let_def)
    obtain ev4 where st5: "break_point_file (save_visited_urls E st4) = break_point_file st4"
        "trace (save_visited_urls E st4) = trace st4 @ ev4" "\<not> list_ex touches_marker ev4"
      using save_visited_urls_frame [of E st4] by blast
    have "trace (post_scrap L cfg E st) = trace st @ (ev1 @ ev2 @ ev3 @ ev4)"
      using ps st5 st3 st2 st1 by (simp add: st4_def)
    moreover have "\<not> list_ex touches_marker (ev1 @ ev2 @ ev3 @ ev4)"
      using m1 m2 st3 st5 by simp
    moreover have "break_point_file (post_scrap L cfg E st) = break_point_file st"
      using ps st5 st3 st2 st1 by (simp add: st4_def)
    ultimately show ?thesis by blast
  qed
qed

lemma count_unlink_zero:
  "\<not> list_ex touches_marker evs \<Longrightarrow> count_list evs Unlink_break_point = 0"
  by (induction evs) auto

section \<open>Backoff gate\<close>

text \<open>
  C4. Let the marker exist when a run starts. If its age is less than \<open>DELAY_HOURS\<close> times
  3600 seconds, the run ends with exit status 1 and leaves the state as it found it, so
  that no request was made. If its age is at least that, the check deletes the marker, and
  a run that holds the lock goes on to completion with exit status 0; the marker is deleted
  once in the whole run and is absent at its end.
\<close>

theorem gate_check:
  assumes "break_point_file st = Some (mtime, content)"
  shows "(now - mtime < real_of_int (DELAY_HOURS cfg * 3600) \<longrightarrow>
            check_break_point cfg now st = Inl (SystemExit 1)
            \<and> main L cfg E now st = (1, st)
            \<and> new_events st (snd (main L cfg E now st)) = [])
       \<and> (now - mtime \<ge> real_of_int (DELAY_HOURS cfg * 3600) \<longrightarrow>
            check_break_point cfg now st
              = Inr (st\<lparr>break_point_file := None, trace := trace st @ [Unlink_break_point]\<rparr>)
            \<and> (\<not> lock_busy E \<longrightarrow>
                 fst (main L cfg E now st) = 0
                 \<and> break_point_file (snd (main L cfg E now st)) = None
                 \<and> count_list (new_events st (snd (main L cfg E now st))) Unlink_break_point = 1))"
proof (intro conjI impI)
  assume cooling: "now - mtime < real_of_int (DELAY_HOURS cfg * 3600)"
  then show c: "check_break_point cfg now st = Inl (SystemExit 1)"
    using assms by (simp add: check_break_point_def)
  then show m: "main L cfg E now st = (1, st)"
    by (simp add: main_def init_def)
  show "new_events st (snd (main L cfg E now st)) = []"
    by (simp add: m new_events_def)
next
  assume expired: "real_of_int (DELAY_HOURS cfg * 3600) \<le> now - mtime"
  then show c: "check_break_point cfg now st
      = Inr (st\<lparr>break_point_file := None, trace := trace st @ [Unlink_break_point]\<rparr>)"
    using assms by (simp add: check_break_point_def log_event_def)
  assume lock: "\<not> lock_busy E"
  define st1 where "st1 = st\<lparr>break_point_file := None, trace := trace st @ [Unlink_break_point]\<rparr>"
  define st2 where "st2 = st1\<lparr>visited_urls := load_visited_urls E st1\<rparr>"
  have m: "main L cfg E now st = (0, post_scrap L cfg E st2)"
    using lock c by (simp add: main_def init_def st1_def st2_def)
  then show "fst (main L cfg E now st) = 0" by simp
  obtain evs where evs: "trace (post_scrap L cfg E st2) = trace st2 @ evs"
      "\<not> list_ex touches_marker evs"
    using post_scrap_frame [of L cfg E st2] by blast
  have "break_point_file (post_scrap L cfg E st2) = break_point_file st2"
    using post_scrap_frame [of L cfg E st2] by simp
  then show "break_point_file (snd (main L cfg E now st)) = None"
    by (simp add: m st2_def st1_def)
  have "trace st2 = trace st @ [Unlink_break_point]"
    by (simp add: st2_def st1_def)
  then have "trace (post_scrap L cfg E st2) = trace st @ Unlink_break_point # evs"
    using evs(1) by simp
  then have "new_events st (snd (main L cfg E now st)) = Unlink_break_point # evs"
    by (simp add: m new_events_def)
  then show "count_list (new_events st (snd (main L cfg E now st))) Unlink_break_point = 1"
    using count_unlink_zero [OF evs(2)] by simp
qed

theorem gate_check_witness:
  "main sample_lib sample_config sample_env 1000
       (sample_state\<lparr>break_point_file := Some (900, ''Reason'')\<rparr>)
     = (1, sample_state\<lparr>break_point_file := Some (900, ''Reason'')\<rparr>)
   \<and> fst (main sample_lib sample_config sample_env 173700
       (sample_state\<lparr>break_point_file := Some (900, ''Reason'')\<rparr>)) = 0
   \<and> break_point_file (snd (main sample_lib sample_config sample_env 173700
       (sample_state\<lparr>break_point_file := Some (900, ''Reason'')\<rparr>))) = None"
proof -
  have marker: "break_point_file (sample_state\<lparr>break_point_file := Some (900, ''Reason'')\<rparr>)
      = Some (900, ''Reason'')"
    by simp
  have cooling: "(1000::real) - 900 < real_of_int (DELAY_HOURS sample_config * 3600)"
    by (simp add: sample_config_def)
  have expired: "(173700::real) - 900 \<ge> real_of_int (DELAY_HOURS sample_config * 3600)"
    by (simp add: sample_config_def)
  have lock: "\<not> lock_busy sample_env"
    by (simp add: sample_env_def)
  show ?thesis
    using gate_check [OF marker, of 1000 sample_config sample_lib sample_env]
      gate_check [OF marker, of 173700 sample_config sample_lib sample_env]
      cooling expired lock
    by blast
qed

section \<open>Visited set\<close>

lemma post_scrap_empty:
  assumes "fst (collect_posts_from_sites L cfg E st) = {}"
  shows "post_scrap L cfg E st = snd (collect_posts_from_sites L cfg E st)"
proof -
  obtain posts st1 where c: "collect_posts_from_sites L cfg E st = (posts, st1)"
    by (cases "collect_posts_from_sites L cfg E st")
  then have "posts = {}" using assms by simp
  then show ?thesis by (simp add: post_scrap_def c)
qed

lemma post_scrap_nonempty:
  assumes "fst (collect_posts_from_sites L cfg E st) = posts" "posts \<noteq> {}"
  shows "\<exists>st3. post_scrap L cfg E st = save_visited_urls E (st3\<lparr>visited_urls := posts\<rparr>)
               \<and> visited_urls_file st3 = visited_urls_file st"
proof -
  define st1 where "st1 = snd (collect_posts_from_sites L cfg E st)"
  have c: "collect_posts_from_sites L cfg E st = (posts, st1)"
    using assms(1) by (simp add: st1_def prod_eq_iff)
  have f1: "visited_urls_file st1 = visited_urls_file st"
    by (simp add: st1_def collect_posts_from_sites_eq)
  define links where "links = fst (campaign_scrap L E (sorted_list_of_set posts) st1)"
  define st2 where "st2 = snd (campaign_scrap L E (sorted_list_of_set posts) st1)"
  have s: "campaign_scrap L E (sorted_list_of_set posts) st1 = (links, st2)"
    by (simp add: links_def st2_def)
  have f2: "visited_urls_file st2 = visited_urls_file st1"
    by (simp add: st2_def campaign_scrap_eq)
  define st3 where "st3 = (if links = {} then st2 else get_coin L cfg E links st2)"
  have f3: "visited_urls_file st3 = visited_urls_file st2"
    using get_coin_frame [of L cfg E links st2] by (simp add: st3_def)
  have "post_scrap L cfg E st = save_visited_urls E (st3\<lparr>visited_urls := posts\<rparr>)"
    using assms(2) by (simp add: post_scrap_def c s st3_def Let_def)
  then show ?thesis using f1 f2 f3 by auto
qed

lemma file_lines_not_Nil: "file_lines s \<noteq> []"
  by (induction s) (auto split: list.splits)

lemma file_lines_line:
  "\<not> list_ex is_newline u \<Longrightarrow> file_lines (u @ CHR 0x0A # rest) = u # file_lines rest"
proof (induction u)
  case Nil
  show ?case by (simp add: is_newline_def)
next
  case (Cons c u)
  then show ?case by (simp split: list.splits)
qed

lemma file_lines_written:
  "\<forall>u \<in> set us. \<not> list_ex is_newline u \<Longrightarrow>
     file_lines (concat (map (\<lambda>url. url @ [CHR 0x0A]) us)) = us @ [[]]"
proof (induction us)
  case Nil
  show ?case by simp
next
  case (Cons u us)
  then show ?case by (simp add: file_lines_line)
qed

lemma strip_Nil: "strip [] = []"
  by code_simp

lemma reload_written:
  assumes "finite urls" "\<forall>u \<in> urls. plain u"
  shows "set (filter (\<lambda>line. line \<noteq> []) (map strip (file_lines (visited_lines urls)))) = urls"
proof -
  define us where "us = sorted_list_of_set urls"
  have us: "set us = urls" using assms(1) by (simp add: us_def)
  then have p: "\<forall>u \<in> set us. plain u" using assms(2) by simp
  then have "file_lines (visited_lines urls) = us @ [[]]"
    unfolding visited_lines_def us_def [symmetric]
    by (intro file_lines_written) (simp add: plain_def)
  moreover have "map strip us = us"
    using p by (induction us) (simp_all add: plain_def)
  moreover have "filter (\<lambda>line. line \<noteq> []) us = us"
    using p by (induction us) (simp_all add: plain_def)
  ultimately show ?thesis
    using us by (simp add: strip_Nil)
qed

text \<open>
  C10. When no post is collected from any site, \<open>post_scrap\<close> returns after the collection:
  the only events of the call are the requests for the listing pages, so no post is
  fetched, no browser session is opened and the file of visited URLs is not written; the
  file and the visited set are as before.
\<close>

theorem empty_collection_returns_early:
  assumes "fst (collect_posts_from_sites L cfg E st) = {}"
  shows "post_scrap L cfg E st = snd (collect_posts_from_sites L cfg E st)
       \<and> visited_urls_file (post_scrap L cfg E st) = visited_urls_file st
       \<and> visited_urls (post_scrap L cfg E st) = visited_urls st
       \<and> new_events st (post_scrap L cfg E st)
           = map (\<lambda>site. Requests_get (fst site)) (SCRAPING_SITES cfg)"
  by (simp add: post_scrap_empty [OF assms] collect_posts_from_sites_eq new_events_def)

theorem empty_collection_returns_early_witness:
  "fst (collect_posts_from_sites sample_lib sample_config offline_env sample_state) = {}
   \<and> visited_urls_file (post_scrap sample_lib sample_config offline_env sample_state)
       = visited_urls_file sample_state
   \<and> new_events sample_state (post_scrap sample_lib sample_config offline_env sample_state)
       = map (\<lambda>site. Requests_get (fst site)) (SCRAPING_SITES sample_config)"
proof -
  have h: "fst (collect_posts_from_sites sample_lib sample_config offline_env sample_state) = {}"
    by (simp add: collect_posts_from_sites_eq sample_config_def site_posts_def offline_env_def
          caught_def)
  from empty_collection_returns_early [OF h] h show ?thesis by blast
qed

lemma load_visited_urls_cong:
  "visited_urls_file st' = visited_urls_file st \<Longrightarrow> load_visited_urls E st' = load_visited_urls E st"
  by (simp add: load_visited_urls_def)

lemma init_Inr:
  assumes "init cfg E now st = Inr st1"
  shows "visited_urls_file st1 = visited_urls_file st \<and> visited_urls st1 = load_visited_urls E st"
proof -
  obtain st0 where g: "check_break_point cfg now st = Inr st0"
      and st1: "st1 = st0\<lparr>visited_urls := load_visited_urls E st0\<rparr>"
    using assms by (auto simp add: init_def split: sum.splits)
  have "visited_urls_file st0 = visited_urls_file st"
    using g by (auto simp add: check_break_point_def Let_def split: option.splits if_splits)
  then show ?thesis
    using st1 load_visited_urls_cong [of st0 st E] by simp
qed

text \<open>
  C3. In a run that holds the lock and passes the gate, the visited set is the
  one loaded from the file. If the run collects at least one post and the file can be
  written, the file holds at the end the collected posts and nothing else, in sorted order
  and one on a line, whatever it held before; read again, it gives the collected set,
  provided each URL is a line of its own. If the run collects no post, the file is left as
  it was.
\<close>

theorem visited_file_replaced:
  assumes "\<not> lock_busy E"
    and "init cfg E now st = Inr st1"
    and "fst (collect_posts_from_sites L cfg E st1) = posts"
  shows "visited_urls st1 = load_visited_urls E st
       \<and> (posts \<noteq> {} \<and> \<not> save_fails E \<longrightarrow>
            visited_urls_file (snd (main L cfg E now st)) = Some (visited_lines posts)
            \<and> set (sorted_list_of_set posts) = posts
            \<and> ((\<forall>u \<in> posts. plain u) \<and> \<not> load_fails E \<longrightarrow>
                 load_visited_urls E (snd (main L cfg E now st)) = posts))
       \<and> (posts = {} \<longrightarrow>
            visited_urls_file (snd (main L cfg E now st)) = visited_urls_file st)"
proof (intro conjI impI)
  show "visited_urls st1 = load_visited_urls E st"
    using init_Inr [OF assms(2)] by simp
  have m: "main L cfg E now st = (0, post_scrap L cfg E st1)"
    using assms(1,2) by (simp add: main_def)
  have fin: "finite posts"
    using finite_collected [of L cfg E st1] assms(3) by simp
  {
    assume h: "posts \<noteq> {} \<and> \<not> save_fails E"
    obtain st3 where st3: "post_scrap L cfg E st1 = save_visited_urls E (st3\<lparr>visited_urls := posts\<rparr>)"
      using post_scrap_nonempty [OF assms(3)] h by blast
    show w: "visited_urls_file (snd (main L cfg E now st)) = Some (visited_lines posts)"
      using h by (simp add: m st3 save_visited_urls_def visited_lines_def)
    show "set (sorted_list_of_set posts) = posts"
      using fin by simp
    assume "(\<forall>u \<in> posts. plain u) \<and> \<not> load_fails E"
    then show "load_visited_urls E (snd (main L cfg E now st)) = posts"
      using w reload_written [OF fin] by (simp add: load_visited_urls_def)
  }
  assume "posts = {}"
  then have "post_scrap L cfg E st1 = snd (collect_posts_from_sites L cfg E st1)"
    using post_scrap_empty assms(3) by blast
  then show "visited_urls_file (snd (main L cfg E now st)) = visited_urls_file st"
    using init_Inr [OF assms(2)] by (simp add: m collect_posts_from_sites_eq)
qed

lemma strip_sample_old: "strip ''https://good.example/old'' = ''https://good.example/old''"
  by code_simp

lemma sample_init:
  "init sample_config sample_env 1000 sample_state
     = Inr (sample_state\<lparr>visited_urls := {''https://good.example/old''}\<rparr>)"
  by (simp add: init_def check_break_point_def sample_state_def load_visited_urls_def
        sample_env_def strip_sample_old strip_Nil is_newline_def)

lemma sample_collected:
  "fst (collect_posts_from_sites sample_lib sample_config sample_env
          (sample_state\<lparr>visited_urls := {''https://good.example/old''}\<rparr>))
     = {''https://good.example/a'', ''https://good.example/b''}"
  by code_simp

theorem visited_file_replaced_witness:
  "visited_urls_file (snd (main sample_lib sample_config sample_env 1000 sample_state))
     = Some (visited_lines {''https://good.example/a'', ''https://good.example/b''})
   \<and> load_visited_urls sample_env (snd (main sample_lib sample_config sample_env 1000 sample_state))
     = {''https://good.example/a'', ''https://good.example/b''}"
proof -
  have lock: "\<not> lock_busy sample_env" by (simp add: sample_env_def)
  have io: "\<not> save_fails sample_env" "\<not> load_fails sample_env" by (simp_all add: sample_env_def)
  have ne: "{''https://good.example/a'', ''https://good.example/b''} \<noteq> ({} :: string set)" by simp
  have pl: "\<forall>u \<in> {''https://good.example/a'', ''https://good.example/b''}. plain u"
    by code_simp
  show ?thesis
    using visited_file_replaced [OF lock sample_init sample_collected, of ] io ne pl
    by blast
qed

theorem visited_file_replaced_counterexample:
  "fst (main sample_lib sample_config offline_env 1000 sample_state) = 0
   \<and> fst (collect_posts_from_sites sample_lib sample_config offline_env
            (sample_state\<lparr>visited_urls := {''https://good.example/old''}\<rparr>)) = {}
   \<and> visited_urls_file (snd (main sample_lib sample_config offline_env 1000 sample_state))
       = Some (''https://good.example/old'' @ [CHR 0x0A])
   \<and> visited_urls_file (snd (main sample_lib sample_config offline_env 1000 sample_state))
       \<noteq> Some (visited_lines {})"
proof -
  have i: "init sample_config offline_env 1000 sample_state
     = Inr (sample_state\<lparr>visited_urls := {''https://good.example/old''}\<rparr>)"
    by (simp add: init_def check_break_point_def sample_state_def load_visited_urls_def
        sample_env_def offline_env_def strip_sample_old strip_Nil is_newline_def)
  have c: "collect_posts_from_sites sample_lib sample_config offline_env
            (sample_state\<lparr>visited_urls := {''https://good.example/old''}\<rparr>)
      = ({}, sample_state\<lparr>visited_urls := {''https://good.example/old''},
              trace := [Requests_get ''https://good.example/board'',
                        Requests_get ''https://down.example/board'']\<rparr>)"
    by (simp add: collect_posts_from_sites_eq sample_config_def site_posts_def offline_env_def
          caught_def sample_state_def)
  have m: "main sample_lib sample_config offline_env 1000 sample_state
      = (0, sample_state\<lparr>visited_urls := {''https://good.example/old''},
              trace := [Requests_get ''https://good.example/board'',
                        Requests_get ''https://down.example/board'']\<rparr>)"
    by (simp add: main_def i post_scrap_def c) (simp add: offline_env_def sample_env_def)
  show ?thesis
    by (simp add: m c) (simp add: sample_state_def visited_lines_def)
qed

section \<open>Skipping and isolation\<close>

lemma filter_removeAll_visited:
  "p \<in> V \<Longrightarrow> filter (\<lambda>q. q \<notin> V) (removeAll p posts) = filter (\<lambda>q. q \<notin> V) posts"
  by (induction posts) auto

text \<open>
  C7. A post of the visited set is skipped by the discoverer: no request is made for it,
  and the discoverer returns the links and makes the requests that it would without
  that post in its argument.
\<close>

theorem visited_posts_skipped:
  assumes "p \<in> visited_urls st"
  shows "Requests_get p \<notin> set (new_events st (snd (campaign_scrap L E posts st)))
       \<and> campaign_scrap L E posts st = campaign_scrap L E (removeAll p posts) st"
proof
  show "Requests_get p \<notin> set (new_events st (snd (campaign_scrap L E posts st)))"
    using assms by (auto simp add: campaign_scrap_eq new_events_def)
  have "{q \<in> set (removeAll p posts). q \<notin> visited_urls st} = {q \<in> set posts. q \<notin> visited_urls st}"
    using assms by auto
  then show "campaign_scrap L E posts st = campaign_scrap L E (removeAll p posts) st"
    using assms by (simp add: campaign_scrap_eq filter_removeAll_visited)
qed

theorem visited_posts_skipped_witness:
  "Requests_get ''https://good.example/a''
     \<notin> set (new_events (sample_state\<lparr>visited_urls := {''https://good.example/a''}\<rparr>)
              (snd (campaign_scrap sample_lib sample_env
                      [''https://good.example/a'', ''https://good.example/b'']
                      (sample_state\<lparr>visited_urls := {''https://good.example/a''}\<rparr>))))
   \<and> campaign_scrap sample_lib sample_env [''https://good.example/a'', ''https://good.example/b'']
        (sample_state\<lparr>visited_urls := {''https://good.example/a''}\<rparr>)
     = campaign_scrap sample_lib sample_env [''https://good.example/b'']
        (sample_state\<lparr>visited_urls := {''https://good.example/a''}\<rparr>)"
proof -
  have h: "''https://good.example/a''
      \<in> visited_urls (sample_state\<lparr>visited_urls := {''https://good.example/a''}\<rparr>)"
    by simp
  have r: "removeAll ''https://good.example/a''
              [''https://good.example/a'', ''https://good.example/b'']
            = [''https://good.example/b'']"
    by simp
  from visited_posts_skipped [OF h, of sample_lib sample_env
      "[''https://good.example/a'', ''https://good.example/b'']"]
  show ?thesis unfolding r by blast
qed

text \<open>
  C9. The collector returns the union of the posts of the sites whose listing was fetched
  and parsed; a site that fails adds nothing, and the result is the one without that site.
  The discoverer returns the union of the campaign links of the posts, outside the visited
  set, that were fetched and analysed; a post that fails adds nothing, and the result is
  the one without that post. No such failure ends the run: a run that holds the lock and
  passes the gate ends with exit status 0.
\<close>

theorem failures_isolated:
  "fst (collect_posts_from_sites L cfg E st)
     = (\<Union>site \<in> set (SCRAPING_SITES cfg). caught (site_posts L E (fst site) (snd site)))
   \<and> (site_posts L E (fst s) (snd s) = Inl e \<longrightarrow>
        fst (collect_posts_from_sites L cfg E st)
          = fst (collect_posts_from_sites L
                   (cfg\<lparr>SCRAPING_SITES := removeAll s (SCRAPING_SITES cfg)\<rparr>) E st))
   \<and> fst (campaign_scrap L E posts st)
     = (\<Union>p \<in> {p \<in> set posts. p \<notin> visited_urls st}. caught (post_campaigns L E p))
   \<and> (post_campaigns L E q = Inl e' \<longrightarrow>
        fst (campaign_scrap L E posts st) = fst (campaign_scrap L E (removeAll q posts) st))
   \<and> (\<not> lock_busy E \<and> init cfg E now st = Inr st1 \<longrightarrow> fst (main L cfg E now st) = 0)"
proof (intro conjI impI)
  show "fst (collect_posts_from_sites L cfg E st)
     = (\<Union>site \<in> set (SCRAPING_SITES cfg). caught (site_posts L E (fst site) (snd site)))"
    by (simp add: collect_posts_from_sites_eq)
next
  assume "site_posts L E (fst s) (snd s) = Inl e"
  then have "caught (site_posts L E (fst s) (snd s)) = {}"
    by (simp add: caught_def)
  then have "(\<Union>site \<in> set (SCRAPING_SITES cfg). caught (site_posts L E (fst site) (snd site)))
      = (\<Union>site \<in> set (SCRAPING_SITES cfg) - {s}. caught (site_posts L E (fst site) (snd site)))"
    by auto
  then show "fst (collect_posts_from_sites L cfg E st)
          = fst (collect_posts_from_sites L
                   (cfg\<lparr>SCRAPING_SITES := removeAll s (SCRAPING_SITES cfg)\<rparr>) E st)"
    by (simp add: collect_posts_from_sites_eq)
next
  show "fst (campaign_scrap L E posts st)
     = (\<Union>p \<in> {p \<in> set posts. p \<notin> visited_urls st}. caught (post_campaigns L E p))"
    by (simp add: campaign_scrap_eq)
next
  assume "post_campaigns L E q = Inl e'"
  then have "caught (post_campaigns L E q) = {}"
    by (simp add: caught_def)
  then have "(\<Union>p \<in> {p \<in> set posts. p \<notin> visited_urls st}. caught (post_campaigns L E p))
      = (\<Union>p \<in> {p \<in> set posts. p \<notin> visited_urls st} - {q}. caught (post_campaigns L E p))"
    by auto
  moreover have "{p \<in> set (removeAll q posts). p \<notin> visited_urls st}
      = {p \<in> set posts. p \<notin> visited_urls st} - {q}"
    by auto
  ultimately show "fst (campaign_scrap L E posts st)
      = fst (campaign_scrap L E (removeAll q posts) st)"
    by (simp add: campaign_scrap_eq)
next
  assume "\<not> lock_busy E \<and> init cfg E now st = Inr st1"
  then show "fst (main L cfg E now st) = 0"
    by (simp add: main_def)
qed

theorem failures_isolated_witness:
  "site_posts sample_lib sample_env ''https://down.example/board''
       \<lparr>tag = ''td'', class_name = ''subject'', domain = ''down.example''\<rparr> = Inl RequestException
   \<and> post_campaigns sample_lib sample_env ''https://good.example/b'' = Inl RequestException
   \<and> fst (collect_posts_from_sites sample_lib sample_config sample_env sample_state)
       = fst (collect_posts_from_sites sample_lib
                (sample_config\<lparr>SCRAPING_SITES :=
                   removeAll (''https://down.example/board'',
                              \<lparr>tag = ''td'', class_name = ''subject'', domain = ''down.example''\<rparr>)
                     (SCRAPING_SITES sample_config)\<rparr>) sample_env sample_state)
   \<and> fst (campaign_scrap sample_lib sample_env
            [''https://good.example/a'', ''https://good.example/b''] sample_state)
       = fst (campaign_scrap sample_lib sample_env
            (removeAll ''https://good.example/b''
               [''https://good.example/a'', ''https://good.example/b'']) sample_state)
   \<and> fst (main sample_lib sample_config sample_env 1000 sample_state) = 0"
proof -
  have s: "site_posts sample_lib sample_env
       (fst (''https://down.example/board'',
             \<lparr>tag = ''td'', class_name = ''subject'', domain = ''down.example''\<rparr>))
       (snd (''https://down.example/board'',
             \<lparr>tag = ''td'', class_name = ''subject'', domain = ''down.example''\<rparr>))
       = Inl RequestException"
    by (simp add: site_posts_def sample_env_def)
  then have s0: "site_posts sample_lib sample_env ''https://down.example/board''
       \<lparr>tag = ''td'', class_name = ''subject'', domain = ''down.example''\<rparr> = Inl RequestException"
    by simp
  have p: "post_campaigns sample_lib sample_env ''https://good.example/b'' = Inl RequestException"
    by (simp add: post_campaigns_def sample_env_def)
  have lock: "\<not> lock_busy sample_env" by (simp add: sample_env_def)
  show ?thesis
    using failures_isolated [where L = sample_lib and cfg = sample_config and E = sample_env
        and st = sample_state
        and s = "(''https://down.example/board'',
          \<lparr>tag = ''td'', class_name = ''subject'', domain = ''down.example''\<rparr>)"
        and e = RequestException
        and posts = "[''https://good.example/a'', ''https://good.example/b'']"
        and q = "''https://good.example/b''" and e' = RequestException and now = 1000
        and ?st1.0 = "sample_state\<lparr>visited_urls := {''https://good.example/old''}\<rparr>"]
      s s0 p lock sample_init
    by blast
qed

section \<open>Writing the marker\<close>

text \<open>
  The routine \<open>_create_break_point\<close> does what the gate needs: it writes the marker with the
  time of the call and the reason given, and a gate check made less than the delay after
  that exits with status 1. No function of the source calls it.
\<close>

lemma create_break_point_suppresses:
  assumes "\<not> create_fails E"
    and "now' - now < real_of_int (DELAY_HOURS cfg * 3600)"
  shows "break_point_file (create_break_point E now reason st)
          = Some (now, ''Break point created: '' @ strftime E now @ [CHR 0x0A]
                       @ ''Reason: '' @ reason @ [CHR 0x0A])
       \<and> check_break_point cfg now' (create_break_point E now reason st) = Inl (SystemExit 1)"
  using assms by (simp add: create_break_point_def check_break_point_def)

text \<open>
  C2. The specification has the marker written when the orchestrator or the discoverer
  meets a sign of being blocked, such as a claim flow that fails. The code never writes
  it: \<open>post_scrap\<close> leaves the marker file as it found it and performs no operation on it,
  whatever happens in the run. In the sample world without a claim control, the first
  account visits the campaign link and its claim flow fails, so that the visit counts no
  success; the run ends with the marker absent and never written, and a run started after
  it, within the delay, is not stopped at the gate and ends with exit status 0.
\<close>

theorem failed_claims_leave_no_marker:
  "break_point_file (post_scrap L cfg E st) = break_point_file st
   \<and> \<not> list_ex touches_marker (new_events st (post_scrap L cfg E st))
   \<and> fst (visit_campaign_links sample_lib blocked_env
             [''https://campaign2.naver.com/npay/v2/click-point/abc?eventId=7''] ''user1''
             sample_state) = 0
   \<and> Driver_get ''user1'' ''https://campaign2.naver.com/npay/v2/click-point/abc?eventId=7''
       \<in> set (trace (snd (main sample_lib sample_config blocked_env 1000 sample_state)))
   \<and> Click_point ''user1'' ''https://campaign2.naver.com/npay/v2/click-point/abc?eventId=7''
       \<notin> set (trace (snd (main sample_lib sample_config blocked_env 1000 sample_state)))
   \<and> break_point_file (snd (main sample_lib sample_config blocked_env 1000 sample_state)) = None
   \<and> Write_break_point
       \<notin> set (trace (snd (main sample_lib sample_config blocked_env 1000 sample_state)))
   \<and> fst (main sample_lib sample_config blocked_env 2000
            (snd (main sample_lib sample_config blocked_env 1000 sample_state))) = 0"
proof (intro conjI)
  show "break_point_file (post_scrap L cfg E st) = break_point_file st"
    using post_scrap_frame [of L cfg E st] by simp
  obtain evs where "trace (post_scrap L cfg E st) = trace st @ evs" "\<not> list_ex touches_marker evs"
    using post_scrap_frame [of L cfg E st] by blast
  then show "\<not> list_ex touches_marker (new_events st (post_scrap L cfg E st))"
    by (simp add: new_events_def)
  show "fst (visit_campaign_links sample_lib blocked_env
             [''https://campaign2.naver.com/npay/v2/click-point/abc?eventId=7''] ''user1''
             sample_state) = 0"
    by code_simp
  show "Driver_get ''user1'' ''https://campaign2.naver.com/npay/v2/click-point/abc?eventId=7''
       \<in> set (trace (snd (main sample_lib sample_config blocked_env 1000 sample_state)))"
    by code_simp
  show "Click_point ''user1'' ''https://campaign2.naver.com/npay/v2/click-point/abc?eventId=7''
       \<notin> set (trace (snd (main sample_lib sample_config blocked_env 1000 sample_state)))"
    by code_simp
  show "break_point_file (snd (main sample_lib sample_config blocked_env 1000 sample_state)) = None"
    by code_simp
  show "Write_break_point
       \<notin> set (trace (snd (main sample_lib sample_config blocked_env 1000 sample_state)))"
    by code_simp
  show "fst (main sample_lib sample_config blocked_env 2000
            (snd (main sample_lib sample_config blocked_env 1000 sample_state))) = 0"
    by code_simp
qed

section \<open>Dwell floor\<close>

text \<open>
  C6. Let the last sleep last at least as long as asked, and let the jitter lie between
  0.3 and 0.8 seconds. Then a call of \<open>dwell_and_scroll\<close> returns no earlier than the minimum
  dwell after its start, whatever the page and however long the wait and the scrolling
  took. The sleep takes place when the time elapsed since the start is below the minimum,
  and lasts for the rest of the minimum plus the jitter: the call then returns at the
  start plus the minimum, the jitter and the overrun of the sleep, so that the time spent
  waiting and scrolling is counted in the minimum and not added to it.
\<close>

theorem dwell_floor:
  assumes "0 \<le> oversleep B" and "3 / 10 \<le> jitter B" and "jitter B \<le> 8 / 10"
    and "m = real_of_int (case min_seconds of None \<Rightarrow> MIN_DWELL_TIME cfg | Some s \<Rightarrow> s)"
    and "elapsed = after_scrolling B start_time - start_time"
  shows "dwell_and_scroll cfg B min_seconds start_time - start_time \<ge> m
       \<and> sleep_time B m start_time
           = (if elapsed < m then Some (m - elapsed + jitter B) else None)
       \<and> (elapsed < m \<longrightarrow>
            dwell_and_scroll cfg B min_seconds start_time
              = start_time + m + jitter B + oversleep B
            \<and> dwell_and_scroll cfg B min_seconds start_time - start_time \<le> m + 8 / 10 + oversleep B)
       \<and> (m \<le> elapsed \<longrightarrow>
            dwell_and_scroll cfg B min_seconds start_time = after_scrolling B start_time)"
proof -
  have s: "sleep_time B m start_time
      = (if elapsed < m then Some (m - elapsed + jitter B) else None)"
    using assms(5) by (simp add: sleep_time_def Let_def)
  have d: "dwell_and_scroll cfg B min_seconds start_time
      = (if elapsed < m then after_scrolling B start_time + (m - elapsed + jitter B) + oversleep B
         else after_scrolling B start_time)"
    using assms(4) s by (simp add: dwell_and_scroll_def Let_def)
  show ?thesis
    using assms(1,2,3,5) s d by auto
qed

theorem dwell_floor_witness:
  "dwell_and_scroll sample_config sample_browser None 100 = 100 + 6 + 1 / 2 + 1 / 100
   \<and> dwell_and_scroll sample_config sample_browser None 100 - 100 \<ge> 6"
proof -
  have o: "0 \<le> oversleep sample_browser" "3 / 10 \<le> jitter sample_browser"
    "jitter sample_browser \<le> 8 / 10"
    by (simp_all add: sample_browser_def)
  have m: "(6::real) = real_of_int (case None of None \<Rightarrow> MIN_DWELL_TIME sample_config | Some s \<Rightarrow> s)"
    by (simp add: sample_config_def)
  have e: "(16 / 10 :: real) = after_scrolling sample_browser 100 - 100"
    by (simp add: after_scrolling_def sample_browser_def)
  have v: "jitter sample_browser = 1 / 2" "oversleep sample_browser = 1 / 100"
    by (simp_all add: sample_browser_def)
  show ?thesis
    using dwell_floor [OF o m e] by (simp add: v)
qed

section \<open>URL normalizer\<close>









end
